theory Spec2Isabelle
  imports Complex_Main "HOL-Library.Word" "HOL-Library.Log_Nat"
begin

section \<open>JavaScript values used by the report generators\<close>

text \<open>
  A JavaScript number is an IEEE-754 double: a finite value, held as the exact rational
  it denotes (the two signed zeros are not kept apart), NaN, or one of the two
  infinities.
\<close>

datatype jsnum = Fin rat | NaN | PosInf | NegInf

fun isFinite :: "jsnum \<Rightarrow> bool" where
  "isFinite (Fin q) = True"
| "isFinite NaN = False"
| "isFinite PosInf = False"
| "isFinite NegInf = False"

text \<open>\<open>Number.isInteger\<close>: a finite number without a fractional part.\<close>

fun isInteger :: "jsnum \<Rightarrow> bool" where
  "isInteger (Fin q) = (of_int \<lfloor>q\<rfloor> = q)"
| "isInteger NaN = False"
| "isInteger PosInf = False"
| "isInteger NegInf = False"

text \<open>The comparison \<open>x < c\<close> against a finite constant; any comparison with NaN is false.\<close>

fun jsLess :: "jsnum \<Rightarrow> rat \<Rightarrow> bool" where
  "jsLess (Fin q) c = (q < c)"
| "jsLess NaN c = False"
| "jsLess PosInf c = False"
| "jsLess NegInf c = True"

text \<open>\<open>x <= c\<close> against a finite constant.\<close>

fun jsLessEq :: "jsnum \<Rightarrow> rat \<Rightarrow> bool" where
  "jsLessEq (Fin q) c = (q \<le> c)"
| "jsLessEq NaN c = False"
| "jsLessEq PosInf c = False"
| "jsLessEq NegInf c = True"

subsection \<open>Arithmetic in doubles\<close>

text \<open>
  The result of an arithmetic operation on finite numbers is the exact result rounded to
  the nearest double, ties to even: a significand of 53 bits, the quantum never below
  \<open>2^-1074\<close> (subnormal numbers), and an infinity once the rounded magnitude reaches
  \<open>2^1024\<close>.
\<close>

definition roundHalfEven :: "rat \<Rightarrow> int" where
  "roundHalfEven m =
     (let f = \<lfloor>m\<rfloor>; d = m - of_int f in
      if d < 1 / 2 then f else if 1 / 2 < d then f + 1 else if even f then f else f + 1)"

text \<open>The binary exponent of a positive rational: \<open>2^e \<le> a < 2^(e+1)\<close>.\<close>

definition floorLog2 :: "rat \<Rightarrow> int" where
  "floorLog2 a =
     (case quotient_of a of (n, d) \<Rightarrow>
        let e0 = bitlen n - bitlen d in if 2 powi e0 \<le> a then e0 else e0 - 1)"

text \<open>The double nearest to a positive rational, or \<open>None\<close> when it overflows.\<close>

definition roundMagnitude :: "rat \<Rightarrow> rat option" where
  "roundMagnitude a =
     (let e = floorLog2 a;
          u = 2 powi (max (e - 52) (- 1074));
          r = roundHalfEven (a / u)
      in if 1024 \<le> e \<or> (e = 1023 \<and> 9007199254740992 \<le> r) then None
         else Some (of_int r * u))"

definition roundDouble :: "rat \<Rightarrow> jsnum" where
  "roundDouble q =
     (if q = 0 then Fin 0
      else case roundMagnitude \<bar>q\<bar> of
             None \<Rightarrow> if 0 < q then PosInf else NegInf
           | Some v \<Rightarrow> Fin (if 0 < q then v else - v))"

text \<open>The operators \<open>+\<close>, \<open>-\<close>, \<open>*\<close> and \<open>/\<close> on numbers, and \<open>Math.floor\<close>.\<close>

fun jsAdd :: "jsnum \<Rightarrow> jsnum \<Rightarrow> jsnum" where
  "jsAdd (Fin a) (Fin b) = roundDouble (a + b)"
| "jsAdd NaN y = NaN"
| "jsAdd x NaN = NaN"
| "jsAdd PosInf NegInf = NaN"
| "jsAdd NegInf PosInf = NaN"
| "jsAdd PosInf y = PosInf"
| "jsAdd x PosInf = PosInf"
| "jsAdd NegInf y = NegInf"
| "jsAdd x NegInf = NegInf"

fun jsSub :: "jsnum \<Rightarrow> jsnum \<Rightarrow> jsnum" where
  "jsSub (Fin a) (Fin b) = roundDouble (a - b)"
| "jsSub NaN y = NaN"
| "jsSub x NaN = NaN"
| "jsSub PosInf PosInf = NaN"
| "jsSub NegInf NegInf = NaN"
| "jsSub PosInf y = PosInf"
| "jsSub x NegInf = PosInf"
| "jsSub NegInf y = NegInf"
| "jsSub x PosInf = NegInf"

fun jsMul :: "jsnum \<Rightarrow> jsnum \<Rightarrow> jsnum" where
  "jsMul (Fin a) (Fin b) = roundDouble (a * b)"
| "jsMul NaN y = NaN"
| "jsMul x NaN = NaN"
| "jsMul PosInf (Fin b) = (if b = 0 then NaN else if 0 < b then PosInf else NegInf)"
| "jsMul NegInf (Fin b) = (if b = 0 then NaN else if 0 < b then NegInf else PosInf)"
| "jsMul (Fin a) PosInf = (if a = 0 then NaN else if 0 < a then PosInf else NegInf)"
| "jsMul (Fin a) NegInf = (if a = 0 then NaN else if 0 < a then NegInf else PosInf)"
| "jsMul PosInf PosInf = PosInf"
| "jsMul PosInf NegInf = NegInf"
| "jsMul NegInf PosInf = NegInf"
| "jsMul NegInf NegInf = PosInf"

text \<open>A zero divisor is taken as the positive zero.\<close>

fun jsDiv :: "jsnum \<Rightarrow> jsnum \<Rightarrow> jsnum" where
  "jsDiv (Fin a) (Fin b) =
     (if b = 0 then (if a = 0 then NaN else if 0 < a then PosInf else NegInf)
      else roundDouble (a / b))"
| "jsDiv NaN y = NaN"
| "jsDiv x NaN = NaN"
| "jsDiv PosInf (Fin b) = (if 0 \<le> b then PosInf else NegInf)"
| "jsDiv NegInf (Fin b) = (if 0 \<le> b then NegInf else PosInf)"
| "jsDiv (Fin a) PosInf = Fin 0"
| "jsDiv (Fin a) NegInf = Fin 0"
| "jsDiv PosInf PosInf = NaN"
| "jsDiv PosInf NegInf = NaN"
| "jsDiv NegInf PosInf = NaN"
| "jsDiv NegInf NegInf = NaN"

fun jsFloor :: "jsnum \<Rightarrow> jsnum" where
  "jsFloor (Fin q) = Fin (of_int \<lfloor>q\<rfloor>)"
| "jsFloor NaN = NaN"
| "jsFloor PosInf = PosInf"
| "jsFloor NegInf = NegInf"

subsection \<open>Strings\<close>

text \<open>
  Strings are lists of 8-bit characters. \<open>toLowerCase\<close> and \<open>toUpperCase\<close> map the
  ASCII letters; characters outside ASCII are left as they are (JavaScript would apply
  the Unicode case mappings to them).
\<close>

definition lowerChar :: "char \<Rightarrow> char" where
  "lowerChar c = (let n = (of_char c :: nat) in if 65 \<le> n \<and> n \<le> 90 then char_of (n + 32) else c)"

definition upperChar :: "char \<Rightarrow> char" where
  "upperChar c = (let n = (of_char c :: nat) in if 97 \<le> n \<and> n \<le> 122 then char_of (n - 32) else c)"

definition toLowerCase :: "string \<Rightarrow> string" where
  "toLowerCase s = map lowerChar s"

definition toUpperCase :: "string \<Rightarrow> string" where
  "toUpperCase s = map upperChar s"

text \<open>\<open>s.padStart(n, "0")\<close>: zeros on the left up to length \<open>n\<close>, never a truncation.\<close>

definition padStart :: "nat \<Rightarrow> string \<Rightarrow> string" where
  "padStart n s = replicate (n - length s) (CHR ''0'') @ s"

section \<open>Address math (csvModbusTTID.js)\<close>

text \<open>
  The exceptions of the module, one constructor per \<open>throw\<close> site or failing builtin;
  each stands for the \<open>Error\<close> whose message the source builds from the payload.
\<close>

datatype error =
    InvalidTTID jsnum           \<comment> \<open>\<open>Invalid TTID for row boxes: ${ttidNum}\<close>\<close>
  | UnknownDeviceType string    \<comment> \<open>\<open>Unknown device type: ${deviceType}\<close>\<close>
  | TransportError string       \<comment> \<open>whatever \<open>readHoldingRegisters\<close> rejected with\<close>
  | BigIntSyntaxError string    \<comment> \<open>\<open>BigInt("0x" + hex)\<close> on a malformed literal\<close>

text \<open>\<open>computeUnitId(deviceType, ttidNum)\<close>.\<close>

definition computeUnitId :: "string \<Rightarrow> jsnum \<Rightarrow> error + jsnum" where
  "computeUnitId deviceType ttidNum =
     (let t = toLowerCase deviceType in
      if t = ''row'' then
        (if \<not> isInteger ttidNum \<or> jsLess ttidNum 1 then Inl (InvalidTTID ttidNum)
         else Inr (jsAdd (jsFloor (jsDiv (jsSub ttidNum (Fin 1)) (Fin 100))) (Fin 1)))
      else if t = ''weather'' then Inr (Fin 101)
      else if t = ''repeater'' then Inr (Fin 102)
      else if t = ''network'' then Inr (Fin 100)
      else Inl (UnknownDeviceType deviceType))"

text \<open>\<open>computeStartingAddressForType(deviceType, ttidNum, unitId, baseReg)\<close>.\<close>

definition computeStartingAddressForType ::
  "string \<Rightarrow> jsnum \<Rightarrow> jsnum \<Rightarrow> jsnum \<Rightarrow> jsnum" where
  "computeStartingAddressForType deviceType ttidNum unitId baseReg =
     (let t = toLowerCase deviceType in
      if t = ''row'' then
        jsAdd (jsMul (jsSub (jsSub ttidNum (Fin 1)) (jsMul (jsSub unitId (Fin 1)) (Fin 100)))
                 (Fin 512))
          baseReg
      else jsAdd (jsMul (jsSub ttidNum (Fin 1)) (Fin 512)) baseReg)"

subsection \<open>The specification's reference definition of the Address Calculator\<close>





section \<open>Codec helpers (csvModbusTTID.js, csvModbusPosition.js)\<close>

text \<open>
  The white space of a regular expression's \<open>\s\<close> and of string-to-number parsing,
  among 8-bit characters: TAB, LF, VT, FF, CR, space and the no-break space.
\<close>

definition isWhitespace :: "char \<Rightarrow> bool" where
  "isWhitespace c = (let n = (of_char c :: nat) in (9 \<le> n \<and> n \<le> 13) \<or> n = 32 \<or> n = 160)"

definition CODEC_ALIASES :: "(string \<times> string) list" where
  "CODEC_ALIASES =
     [(''asciiz'', ''ascii''), (''utf8'', ''ascii''), (''text'', ''ascii''), (''string'', ''ascii''),
      (''float'', ''float32''), (''floatbe'', ''float32''), (''float32'', ''float32''),
      (''int'', ''int32''), (''int32'', ''int32''), (''i32'', ''int32''),
      (''uint'', ''uint32''), (''u32'', ''uint32''), (''uint32'', ''uint32''),
      (''u64'', ''uint64''), (''uint64'', ''uint64''),
      (''int64'', ''int64''), (''i64'', ''int64''),
      (''int16'', ''int16''), (''i16'', ''int16''), (''s16'', ''int16''),
      (''uint16'', ''uint16''), (''u16'', ''uint16''),
      (''bool'', ''boolean''), (''boolean'', ''boolean''),
      (''hex'', ''hex'')]"

text \<open>
  \<open>normalizeCodec(codec)\<close>: \<open>String(codec || "").toLowerCase().replace(/\s+/g, "")\<close>,
  then the alias table, the key itself when the table has no entry. (For the two keys
  that name a property of every object, \<open>constructor\<close> and \<open>__proto__\<close>, the
  JavaScript lookup yields a non-string; no later comparison with a codec name succeeds
  for it, which is also what the key itself gives here.)
\<close>

definition normalizeCodec :: "string \<Rightarrow> string" where
  "normalizeCodec codec =
     (let key = filter (\<lambda>c. \<not> isWhitespace c) (toLowerCase codec) in
      case map_of CODEC_ALIASES key of Some canonical \<Rightarrow> canonical | None \<Rightarrow> key)"

subsection \<open>Hexadecimal text and buffers\<close>

definition hexDigit :: "char \<Rightarrow> nat option" where
  "hexDigit c =
     (let n = (of_char c :: nat) in
      if 48 \<le> n \<and> n \<le> 57 then Some (n - 48)
      else if 97 \<le> n \<and> n \<le> 102 then Some (n - 87)
      else if 65 \<le> n \<and> n \<le> 70 then Some (n - 55)
      else None)"

definition isHexDigit :: "char \<Rightarrow> bool" where
  "isHexDigit c = (hexDigit c \<noteq> None)"

definition digitChar :: "nat \<Rightarrow> char" where
  "digitChar d = (if d < 10 then char_of (48 + d) else char_of (87 + d))"

text \<open>The value of a string of hexadecimal digits, most significant digit first.\<close>

definition hexValue :: "string \<Rightarrow> int" where
  "hexValue s = foldl (\<lambda>acc c. 16 * acc + (case hexDigit c of Some d \<Rightarrow> int d | None \<Rightarrow> 0)) 0 s"

text \<open>
  A non-negative integer in base 16 (lower-case digits) and in base 10, without leading
  zeros.
\<close>

function hexInt :: "int \<Rightarrow> string" where
  "hexInt n = (if n < 16 then [digitChar (nat n)]
               else hexInt (n div 16) @ [digitChar (nat (n mod 16))])"
  by pat_completeness auto
termination
  by (relation "measure nat") auto

function decimalInt :: "int \<Rightarrow> string" where
  "decimalInt n = (if n < 10 then [digitChar (nat n)]
                   else decimalInt (n div 10) @ [digitChar (nat (n mod 10))])"
  by pat_completeness auto
termination
  by (relation "measure nat") auto

text \<open>\<open>n.toString(16)\<close> for an integer \<open>n\<close>.\<close>

definition toString16 :: "int \<Rightarrow> string" where
  "toString16 n = (if n < 0 then CHR ''-'' # hexInt (- n) else hexInt n)"

text \<open>
  \<open>Buffer.from(hex, "hex")\<close>: two characters give one byte; decoding stops at the first
  pair that is not two hexadecimal digits, and a single trailing character is dropped.
\<close>

fun bufferFromHex :: "string \<Rightarrow> 8 word list" where
  "bufferFromHex (a # b # rest) =
     (case hexDigit a of
        None \<Rightarrow> []
      | Some h \<Rightarrow> (case hexDigit b of
                     None \<Rightarrow> []
                   | Some l \<Rightarrow> of_nat (16 * h + l) # bufferFromHex rest))"
| "bufferFromHex [a] = []"
| "bufferFromHex [] = []"

text \<open>The big-endian value of the first \<open>n\<close> bytes of a buffer.\<close>

definition readUIntBE :: "nat \<Rightarrow> 8 word list \<Rightarrow> int" where
  "readUIntBE n buffer = foldl (\<lambda>acc b. 256 * acc + uint b) 0 (take n buffer)"

definition readUInt16BE :: "8 word list \<Rightarrow> int" where
  "readUInt16BE buffer = readUIntBE 2 buffer"

definition readInt16BE :: "8 word list \<Rightarrow> int" where
  "readInt16BE buffer = sint (word_of_int (readUIntBE 2 buffer) :: 16 word)"

definition readUInt32BE :: "8 word list \<Rightarrow> int" where
  "readUInt32BE buffer = readUIntBE 4 buffer"

definition readInt32BE :: "8 word list \<Rightarrow> int" where
  "readInt32BE buffer = sint (word_of_int (readUIntBE 4 buffer) :: 32 word)"

text \<open>
  \<open>BigInt("0x" + hex)\<close>: the literal is hexadecimal digits, at least one, with optional
  white space after them; anything else is a SyntaxError.
\<close>

definition trimEnd :: "string \<Rightarrow> string" where
  "trimEnd s = rev (dropWhile isWhitespace (rev s))"

definition bigIntOfHex :: "string \<Rightarrow> error + int" where
  "bigIntOfHex hex =
     (let digits = trimEnd hex in
      if digits \<noteq> [] \<and> list_all isHexDigit digits then Inr (hexValue digits)
      else Inl (BigIntSyntaxError (''0x'' @ hex)))"

subsection \<open>decodeValue\<close>

text \<open>
  The values of a result row's cells: \<open>null\<close>, a string, a number, and three
  values kept in structured form: \<open>JFloat32 w\<close> is the IEEE-754 single whose bit
  pattern is \<open>w\<close> (\<open>readFloatBE\<close>), \<open>JUtf8NoNul bs\<close> is the text
  \<open>buffer.toString("utf8").replace(/\0/g, "")\<close> of the buffer \<open>bs\<close>, and
  \<open>JTemplate p e\<close> is the string \<open>p\<close> followed by the message of the exception
  \<open>e\<close> (the template literals \<open>Error: ${err.message}\<close> and
  \<open>Decode error: ${err.message}\<close>).
\<close>

datatype jsval =
    JNull
  | JStr string
  | JNum jsnum
  | JFloat32 "32 word"
  | JUtf8NoNul "8 word list"
  | JTemplate string error

definition decodeValue :: "string \<Rightarrow> string \<Rightarrow> error + jsval" where
  "decodeValue hex codec =
     (let buffer = bufferFromHex hex in
      if codec = ''ascii'' then Inr (JUtf8NoNul buffer)
      else if codec = ''float32'' then
        Inr (if length buffer \<ge> 4 then JFloat32 (word_of_int (readUIntBE 4 buffer))
             else JStr ''Not enough bytes for float32'')
      else if codec = ''int32'' then
        Inr (if length buffer \<ge> 4 then JNum (Fin (of_int (readInt32BE buffer)))
             else JStr ''Not enough bytes for int32'')
      else if codec = ''uint32'' then
        Inr (if length buffer \<ge> 4 then JNum (Fin (of_int (readUInt32BE buffer)))
             else JStr ''Not enough bytes for uint32'')
      else if codec = ''uint64'' then
        (if length buffer \<ge> 8 then
           (case bigIntOfHex hex of
              Inl e \<Rightarrow> Inl e
            | Inr n \<Rightarrow> Inr (JStr (decimalInt n)))
         else Inr (JStr ''Not enough bytes for uint64''))
      else if codec = ''int64'' then Inr (JStr ''Int64 decoding not implemented'')
      else if codec = ''int16'' then
        Inr (if length buffer \<ge> 2 then JNum (Fin (of_int (readInt16BE buffer)))
             else JStr ''Not enough bytes for int16'')
      else if codec = ''uint16'' then
        Inr (if length buffer \<ge> 2 then JNum (Fin (of_int (readUInt16BE buffer)))
             else JStr ''Not enough bytes for uint16'')
      else if codec = ''boolean'' then
        Inr (if length buffer \<ge> 2
             then JNum (Fin (if readUInt16BE buffer \<noteq> 0 then 1 else 0))
             else JStr ''Not enough bytes for boolean'')
      else if codec = ''hex'' then Inr (JStr (''0x'' @ toUpperCase hex))
      else Inr JNull)"

text \<open>
  csvSortedBatchRead.js has its own copy of \<open>decodeValue\<close>; its diagnostics do not
  name the codec.
\<close>

definition decodeValueSorted :: "string \<Rightarrow> string \<Rightarrow> error + jsval" where
  "decodeValueSorted hex codec =
     (let buffer = bufferFromHex hex in
      if codec = ''ascii'' then Inr (JUtf8NoNul buffer)
      else if codec = ''float32'' then
        Inr (if length buffer \<ge> 4 then JFloat32 (word_of_int (readUIntBE 4 buffer))
             else JStr ''Not enough bytes'')
      else if codec = ''int32'' then
        Inr (if length buffer \<ge> 4 then JNum (Fin (of_int (readInt32BE buffer)))
             else JStr ''Not enough bytes'')
      else if codec = ''uint32'' then
        Inr (if length buffer \<ge> 4 then JNum (Fin (of_int (readUInt32BE buffer)))
             else JStr ''Not enough bytes'')
      else if codec = ''uint64'' then
        (if length buffer \<ge> 8 then
           (case bigIntOfHex hex of
              Inl e \<Rightarrow> Inl e
            | Inr n \<Rightarrow> Inr (JStr (decimalInt n)))
         else Inr (JStr ''Not enough bytes''))
      else if codec = ''int64'' then Inr (JStr ''Int64 decoding not implemented'')
      else if codec = ''int16'' then
        Inr (if length buffer \<ge> 2 then JNum (Fin (of_int (readInt16BE buffer)))
             else JStr ''Not enough bytes'')
      else if codec = ''uint16'' then
        Inr (if length buffer \<ge> 2 then JNum (Fin (of_int (readUInt16BE buffer)))
             else JStr ''Not enough bytes'')
      else if codec = ''boolean'' then
        Inr (if length buffer \<ge> 2
             then JNum (Fin (if readUInt16BE buffer \<noteq> 0 then 1 else 0))
             else JStr ''Not enough bytes'')
      else if codec = ''hex'' then Inr (JStr (''0x'' @ toUpperCase hex))
      else Inr JNull)"

subsection \<open>Padding to the decoder's width (all three report generators)\<close>

text \<open>
  The three \<open>if\<close> statements that follow \<open>normalizeCodec\<close> in each generator, in
  the source's order:
  \<^verbatim>\<open>if (["uint64"].includes(c) && hex.length < 16) hex = hex.padStart(16, "0");\<close>
  and the same for the 32-bit kinds (8) and the 16-bit kinds (4).
\<close>

definition padForCodec :: "string \<Rightarrow> string \<Rightarrow> string" where
  "padForCodec normalizedCodec combinedHex =
     (let h1 = (if normalizedCodec \<in> set [''uint64''] \<and> length combinedHex < 16
                then padStart 16 combinedHex else combinedHex);
          h2 = (if normalizedCodec \<in> set [''uint32'', ''int32'', ''float32''] \<and> length h1 < 8
                then padStart 8 h1 else h1);
          h3 = (if normalizedCodec \<in> set [''uint16'', ''int16'', ''boolean''] \<and> length h2 < 4
                then padStart 4 h2 else h2)
      in h3)"

text \<open>
  Written from the specification's words: the number of hexadecimal characters a codec
  requires (4 for the 16-bit kinds, 8 for the 32-bit kinds, 16 for uint64).
\<close>

definition spec_requiredWidth :: "string \<Rightarrow> nat option" where
  "spec_requiredWidth codec =
     (if codec = ''uint16'' \<or> codec = ''int16'' \<or> codec = ''boolean'' then Some 4
      else if codec = ''uint32'' \<or> codec = ''int32'' \<or> codec = ''float32'' then Some 8
      else if codec = ''uint64'' then Some 16
      else None)"

section \<open>The register pollers\<close>

text \<open>
  The Modbus client: \<open>client.setID(unitId)\<close> followed by
  \<open>await client.readHoldingRegisters(address, count)\<close> is one call of the transport
  with the connection's state \<open>'c\<close>; it either rejects with an exception or resolves
  to \<open>data.data\<close>, the register words as the transport hands them over (integers).
\<close>

type_synonym 'c transport = "'c \<Rightarrow> jsnum \<Rightarrow> jsnum \<Rightarrow> jsnum \<Rightarrow> (error + int list) \<times> 'c"

text \<open>
  One entry of a field-spec file after the numeric conversions of the reader:
  \<open>Number(field.BaseReg)\<close>, \<open>Number(field.Size)\<close>, \<open>field.ID || ""\<close> and
  \<open>field.Codec || ""\<close>.
\<close>

record field =
  fBaseReg :: jsnum
  fSize :: jsnum
  fID :: string
  fCodec :: string

text \<open>A row of \<open>allResults\<close>; the TTID generator's rows carry the TTID as well.\<close>

record resultRow =
  Site :: jsval
  UnitID :: jsval
  ID :: jsval
  StartingAddress :: jsval
  Size :: jsval
  CombinedHex :: jsval
  DecodedValue :: jsval

record ttidRow = resultRow +
  TTID :: jsval

subsection \<open>Hex assembly\<close>

text \<open>
  \<open>(val < 0 ? 0x10000 + val : val).toString(16).padStart(4, "0")\<close>, the rendering of one
  register word.
\<close>

definition registerHex :: "int \<Rightarrow> string" where
  "registerHex val = padStart 4 (toString16 (if val < 0 then 65536 + val else val))"

text \<open>
  csvModbusTTID.js: \<open>hexValues.join("").replace(/^0+/, "") || "00"\<close>. The leading zeros
  of the joined string are removed; an empty remainder becomes \<open>00\<close>.
\<close>

definition combinedHexTTID :: "int list \<Rightarrow> string" where
  "combinedHexTTID data =
     (let stripped = dropWhile (\<lambda>c. c = CHR ''0'') (concat (map registerHex data)) in
      if stripped = [] then ''00'' else stripped)"

text \<open>csvModbusPosition.js and csvSortedBatchRead.js: \<open>hexValues.join("")\<close>.\<close>

definition combinedHexPosition :: "int list \<Rightarrow> string" where
  "combinedHexPosition data = concat (map registerHex data)"

subsection \<open>readModbusBatch (csvModbusTTID.js): the loops over TTIDs and fields\<close>

text \<open>
  The body of \<open>for (const field of fieldSpec)\<close>. Each branch pushes one row onto
  \<open>allResults\<close>; only the branch after the validation calls the transport.
\<close>

definition fieldStep ::
  "'c transport \<Rightarrow> string \<Rightarrow> string \<Rightarrow> jsnum \<Rightarrow> jsnum \<Rightarrow> field
     \<Rightarrow> ttidRow list \<times> 'c \<Rightarrow> ttidRow list \<times> 'c" where
  "fieldStep client site deviceType ttidNum unitId fld st =
     (case st of (allResults, c) \<Rightarrow>
      let baseReg = fBaseReg fld; size = fSize fld; id = fID fld; rawCodec = fCodec fld in
      if \<not> isFinite baseReg \<or> \<not> isFinite size \<or> jsLessEq size 0 then
        (allResults @
           [\<lparr>Site = JStr site, UnitID = JNum unitId, ID = JStr id,
             StartingAddress = JNum baseReg, Size = JNum size,
             CombinedHex = JStr ''Invalid field spec'', DecodedValue = JStr '''',
             TTID = JNum ttidNum\<rparr>], c)
      else
        let startAddr = computeStartingAddressForType deviceType ttidNum unitId baseReg in
        (case client c unitId startAddr size of
           (Inr data, c') \<Rightarrow>
             let combinedHex0 = combinedHexTTID data;
                 normalizedCodec = normalizeCodec rawCodec;
                 combinedHex = padForCodec normalizedCodec combinedHex0;
                 decodedValue =
                   (case decodeValue combinedHex normalizedCodec of
                      Inr v \<Rightarrow>
                        if v = JNull \<and> rawCodec \<noteq> []
                        then JStr (''Unknown codec '' @ [CHR 0x22] @ rawCodec @ [CHR 0x22])
                        else v
                    | Inl err \<Rightarrow> JTemplate ''Decode error: '' err)
             in (allResults @
                   [\<lparr>Site = JStr site, UnitID = JNum unitId, ID = JStr id,
                     StartingAddress = JNum startAddr, Size = JNum size,
                     CombinedHex = JStr (CHR 0x27 # toUpperCase combinedHex),
                     DecodedValue = decodedValue,
                     TTID = JNum ttidNum\<rparr>], c')
         | (Inl err, c') \<Rightarrow>
             (allResults @
                [\<lparr>Site = JStr site, UnitID = JNum unitId, ID = JStr id,
                  StartingAddress = JNum startAddr, Size = JNum size,
                  CombinedHex = JTemplate ''Error: '' err, DecodedValue = JStr '''',
                  TTID = JNum ttidNum\<rparr>], c')))"

fun fieldLoop ::
  "'c transport \<Rightarrow> string \<Rightarrow> string \<Rightarrow> jsnum \<Rightarrow> jsnum \<Rightarrow> field list
     \<Rightarrow> ttidRow list \<times> 'c \<Rightarrow> ttidRow list \<times> 'c" where
  "fieldLoop client site deviceType ttidNum unitId [] st = st"
| "fieldLoop client site deviceType ttidNum unitId (fld # rest) st =
     fieldLoop client site deviceType ttidNum unitId rest
       (fieldStep client site deviceType ttidNum unitId fld st)"

text \<open>
  The body of \<open>for (const TTID of deviceType.ttids)\<close>. \<open>toNumber\<close> stands for
  \<open>Number(String(TTID).trim())\<close>, the string-to-number conversion of the language.
\<close>

definition ttidStep ::
  "'c transport \<Rightarrow> (string \<Rightarrow> jsnum) \<Rightarrow> string \<Rightarrow> string \<Rightarrow> field list \<Rightarrow> string
     \<Rightarrow> ttidRow list \<times> 'c \<Rightarrow> ttidRow list \<times> 'c" where
  "ttidStep client toNumber site deviceType fieldSpec ttid st =
     (case st of (allResults, c) \<Rightarrow>
      let ttidNum = toNumber ttid in
      if \<not> isFinite ttidNum then
        (allResults @
           [\<lparr>Site = JStr site, UnitID = JStr '''', ID = JStr '''',
             StartingAddress = JStr '''', Size = JStr '''',
             CombinedHex = JStr ''Invalid TTID'', DecodedValue = JStr '''',
             TTID = JStr ttid\<rparr>], c)
      else
        (case computeUnitId deviceType ttidNum of
           Inl err \<Rightarrow>
             (allResults @
                [\<lparr>Site = JStr site, UnitID = JStr '''', ID = JStr '''',
                  StartingAddress = JStr '''', Size = JStr '''',
                  CombinedHex = JTemplate ''Error: '' err, DecodedValue = JStr '''',
                  TTID = JStr ttid\<rparr>], c)
         | Inr unitId \<Rightarrow>
             fieldLoop client site deviceType ttidNum unitId fieldSpec (allResults, c)))"

fun ttidLoop ::
  "'c transport \<Rightarrow> (string \<Rightarrow> jsnum) \<Rightarrow> string \<Rightarrow> string \<Rightarrow> field list \<Rightarrow> string list
     \<Rightarrow> ttidRow list \<times> 'c \<Rightarrow> ttidRow list \<times> 'c" where
  "ttidLoop client toNumber site deviceType fieldSpec [] st = st"
| "ttidLoop client toNumber site deviceType fieldSpec (ttid # rest) st =
     ttidLoop client toNumber site deviceType fieldSpec rest
       (ttidStep client toNumber site deviceType fieldSpec ttid st)"





subsection \<open>The position-mode generators: the loop over the entries\<close>

text \<open>
  The body of \<open>for (const entry of allEntries)\<close> for one position, the same text in
  csvModbusPosition.js and (behind a guard) in csvSortedBatchRead.js, each with the
  \<open>decodeValue\<close> of its own module: the entry's \<open>BaseReg\<close> and \<open>Size\<close> are the
  numbers of the JSON file, \<open>Codec\<close> defaults to the empty string. There is one
  \<open>try\<close> around the read, the hex assembly and the decode, so an exception of
  \<open>decodeValue\<close> gives an error row as a failed read does. The separator rows pushed
  before and after the loop are not part of it.
\<close>

fun jsIsNaN :: "jsnum \<Rightarrow> bool" where
  "jsIsNaN NaN = True"
| "jsIsNaN (Fin q) = False"
| "jsIsNaN PosInf = False"
| "jsIsNaN NegInf = False"

definition entryStep ::
  "(string \<Rightarrow> string \<Rightarrow> error + jsval) \<Rightarrow> 'c transport \<Rightarrow> string \<Rightarrow> int \<Rightarrow> jsnum \<Rightarrow> field
     \<Rightarrow> resultRow list \<times> 'c \<Rightarrow> resultRow list \<times> 'c" where
  "entryStep decode client site unitId posBase entry st =
     (case st of (allResults, c) \<Rightarrow>
      let rangeStart = jsAdd (jsMul posBase (Fin 512)) (fBaseReg entry) in
      (case client c (Fin (of_int unitId)) rangeStart (fSize entry) of
         (Inr data, c') \<Rightarrow>
           let combinedHex0 = combinedHexPosition data;
               normalizedCodec = normalizeCodec (fCodec entry);
               combinedHex = padForCodec normalizedCodec combinedHex0
           in (case decode combinedHex normalizedCodec of
                 Inr decodedValue \<Rightarrow>
                   (allResults @
                      [\<lparr>Site = JStr site, UnitID = JNum (Fin (of_int unitId)),
                        ID = JStr (fID entry), StartingAddress = JNum rangeStart,
                        Size = JNum (fSize entry),
                        CombinedHex = JStr (CHR 0x27 # toUpperCase combinedHex),
                        DecodedValue = decodedValue\<rparr>], c')
               | Inl err \<Rightarrow>
                   (allResults @
                      [\<lparr>Site = JStr site, UnitID = JNum (Fin (of_int unitId)),
                        ID = JStr (fID entry), StartingAddress = JNum rangeStart,
                        Size = JNum (fSize entry),
                        CombinedHex = JTemplate ''Error: '' err,
                        DecodedValue = JStr ''''\<rparr>], c'))
       | (Inl err, c') \<Rightarrow>
           (allResults @
              [\<lparr>Site = JStr site, UnitID = JNum (Fin (of_int unitId)),
                ID = JStr (fID entry), StartingAddress = JNum rangeStart,
                Size = JNum (fSize entry),
                CombinedHex = JTemplate ''Error: '' err, DecodedValue = JStr ''''\<rparr>], c')))"

text \<open>readModbusPositions (csvModbusPosition.js).\<close>

definition positionEntryStep ::
  "'c transport \<Rightarrow> string \<Rightarrow> int \<Rightarrow> jsnum \<Rightarrow> field
     \<Rightarrow> resultRow list \<times> 'c \<Rightarrow> resultRow list \<times> 'c" where
  "positionEntryStep client site unitId posBase entry st =
     entryStep decodeValue client site unitId posBase entry st"

fun positionEntryLoop ::
  "'c transport \<Rightarrow> string \<Rightarrow> int \<Rightarrow> jsnum \<Rightarrow> field list
     \<Rightarrow> resultRow list \<times> 'c \<Rightarrow> resultRow list \<times> 'c" where
  "positionEntryLoop client site unitId posBase [] st = st"
| "positionEntryLoop client site unitId posBase (entry # rest) st =
     positionEntryLoop client site unitId posBase rest
       (positionEntryStep client site unitId posBase entry st)"

text \<open>
  readAllPositionsFromCsv (csvSortedBatchRead.js): the same body behind the guard
  \<open>if (!ID || isNaN(BaseReg) || isNaN(Size)) continue;\<close>.
\<close>

definition sortedEntryStep ::
  "'c transport \<Rightarrow> string \<Rightarrow> int \<Rightarrow> jsnum \<Rightarrow> field
     \<Rightarrow> resultRow list \<times> 'c \<Rightarrow> resultRow list \<times> 'c" where
  "sortedEntryStep client site unitId posBase entry st =
     (if fID entry = [] \<or> jsIsNaN (fBaseReg entry) \<or> jsIsNaN (fSize entry) then st
      else entryStep decodeValueSorted client site unitId posBase entry st)"

fun sortedEntryLoop ::
  "'c transport \<Rightarrow> string \<Rightarrow> int \<Rightarrow> jsnum \<Rightarrow> field list
     \<Rightarrow> resultRow list \<times> 'c \<Rightarrow> resultRow list \<times> 'c" where
  "sortedEntryLoop client site unitId posBase [] st = st"
| "sortedEntryLoop client site unitId posBase (entry # rest) st =
     sortedEntryLoop client site unitId posBase rest
       (sortedEntryStep client site unitId posBase entry st)"

text \<open>The canonical codecs, the cases of \<open>decodeValue\<close>'s \<open>switch\<close>.\<close>

definition canonicalCodecs :: "string list" where
  "canonicalCodecs =
     [''ascii'', ''float32'', ''int32'', ''uint32'', ''uint64'', ''int64'', ''int16'',
      ''uint16'', ''boolean'', ''hex'']"

section \<open>The mode toggle (modbus-set-mode-api.js)\<close>

text \<open>
  The flags object of a mode: each of the two keys is present with a boolean, or absent
  (\<open>delete flags.enableModbusSorting\<close>).
\<close>

record flags =
  enableLegacyMode :: "bool option"
  enableModbusSorting :: "bool option"

text \<open>
  \<open>MODE_MAP[String(mode).toLowerCase()]\<close>. Besides the three modes, the keys
  \<open>constructor\<close> and \<open>__proto__\<close> find a property of every object: a truthy value
  whose copy \<open>{ ...flags }\<close> has no key.
\<close>

definition MODE_MAP :: "string \<Rightarrow> flags option" where
  "MODE_MAP key =
     (if key = ''ttid''
        then Some \<lparr>enableLegacyMode = Some False, enableModbusSorting = Some False\<rparr>
      else if key = ''legacy-unsorted''
        then Some \<lparr>enableLegacyMode = Some True, enableModbusSorting = Some False\<rparr>
      else if key = ''legacy-sorted''
        then Some \<lparr>enableLegacyMode = Some True, enableModbusSorting = Some True\<rparr>
      else if key = ''constructor'' \<or> key = ''__proto__''
        then Some \<lparr>enableLegacyMode = None, enableModbusSorting = None\<rparr>
      else None)"

definition SELECTIONS :: "string list" where
  "SELECTIONS =
     [''modbusService { enableModbusService enableModbusWrites enableModbusSorting enableLegacyMode }'',
      ''modbusService { enableModbusService enableModbusWrites }'',
      ''modbusService { __typename }'',
      ''__typename'']"

text \<open>
  One HTTP exchange. \<open>fetchImpl\<close> either rejects (connection failure, or the abort that
  the timeout triggers) or resolves to a response; \<open>parsed\<close> stands for
  \<open>JSON.parse(text)\<close>: not JSON at all, the JSON value \<open>null\<close>, or another value with
  \<open>JSON.stringify(json.errors)\<close> when \<open>json.errors\<close> is a non-empty list. The server
  and the network are a state \<open>'s\<close> that each exchange may change; the request is the
  selection set and the flags sent.
\<close>

datatype body = NonJson | JsonNull | Json "string option"

record response =
  status :: int
  bodyText :: string
  parsed :: body

datatype fetchResult = Rejects string | Resolves response

type_synonym 's fetch = "'s \<Rightarrow> string \<Rightarrow> flags \<Rightarrow> fetchResult \<times> 's"

text \<open>What the module can throw: the rejection of \<open>fetch\<close>, and a TypeError.\<close>

datatype exn = FetchError string | TypeError string

definition resOk :: "response \<Rightarrow> bool" where
  "resOk res = (200 \<le> status res \<and> status res \<le> 299)"

record postResult =
  prOk :: bool
  prError :: "string option"

text \<open>
  \<open>postUpdate\<close>. The \<open>try\<close> around \<open>fetchImpl\<close> has a \<open>finally\<close> and no
  \<open>catch\<close>: a rejection leaves the function as an exception. The JSON parse has its own
  \<open>catch\<close>; \<open>json.errors\<close> is read without a test that \<open>json\<close> is an object.
\<close>

definition postUpdate :: "'s fetch \<Rightarrow> flags \<Rightarrow> string \<Rightarrow> 's \<Rightarrow> (exn + postResult) \<times> 's" where
  "postUpdate fetchImpl variables selection s =
     (case fetchImpl s selection variables of
        (Rejects m, s') \<Rightarrow> (Inl (FetchError m), s')
      | (Resolves res, s') \<Rightarrow>
          (case parsed res of
             NonJson \<Rightarrow>
               (Inr \<lparr>prOk = False,
                      prError = Some (''Non-JSON response (status '' @ decimalInt (status res)
                                        @ ''): '' @ bodyText res)\<rparr>, s')
           | JsonNull \<Rightarrow>
               if \<not> resOk res
               then (Inr \<lparr>prOk = False,
                      prError = Some (''HTTP '' @ decimalInt (status res) @ '': '' @ bodyText res)\<rparr>, s')
               else (Inl (TypeError ''Cannot read properties of null (reading errors)''), s')
           | Json errors \<Rightarrow>
               if \<not> resOk res
               then (Inr \<lparr>prOk = False,
                      prError = Some (''HTTP '' @ decimalInt (status res) @ '': '' @ bodyText res)\<rparr>, s')
               else (case errors of
                       Some e \<Rightarrow> (Inr \<lparr>prOk = False, prError = Some (''GraphQL errors: '' @ e)\<rparr>, s')
                     | None \<Rightarrow> (Inr \<lparr>prOk = True, prError = None\<rparr>, s'))))"

subsection \<open>The regular expressions of setFlags\<close>

text \<open>\<open>/needle/i.test(hay)\<close> for a literal needle.\<close>

fun containsCI :: "string \<Rightarrow> string \<Rightarrow> bool" where
  "containsCI needle [] = (needle = [])"
| "containsCI needle (c # cs) =
     (toLowerCase (take (length needle) (c # cs)) = toLowerCase needle \<or> containsCI needle cs)"

definition isLineTerminator :: "char \<Rightarrow> bool" where
  "isLineTerminator c = (c = CHR 0x0A \<or> c = CHR 0x0D)"

text \<open>
  \<open>/a.*b/i.test(hay)\<close> for literals \<open>a\<close> and \<open>b\<close> without line terminators: \<open>a\<close>
  somewhere, then \<open>b\<close> later on the same line.
\<close>

fun matchGapCI :: "string \<Rightarrow> string \<Rightarrow> string \<Rightarrow> bool" where
  "matchGapCI a b [] = (a = [] \<and> b = [])"
| "matchGapCI a b (c # cs) =
     ((toLowerCase (take (length a) (c # cs)) = toLowerCase a
        \<and> containsCI b (takeWhile (\<lambda>x. \<not> isLineTerminator x) (drop (length a) (c # cs))))
      \<or> matchGapCI a b cs)"

text \<open>\<open>/Cannot query field .* on type "ModbusService"/i\<close>\<close>

definition selectionTooAmbitious :: "string \<Rightarrow> bool" where
  "selectionTooAmbitious msg =
     matchGapCI ''Cannot query field '' ('' on type '' @ [CHR 0x22] @ ''ModbusService'' @ [CHR 0x22]) msg"

text \<open>\<open>/Unknown (argument|field)/i.test(msg) || /Field .* is not defined/i.test(msg)\<close>\<close>

definition inputsNotSupported :: "string \<Rightarrow> bool" where
  "inputsNotSupported msg =
     ((containsCI ''Unknown argument'' msg \<or> containsCI ''Unknown field'' msg)
      \<or> matchGapCI ''Field '' '' is not defined'' msg)"

text \<open>\<open>scrubUnsupportedFlagsFromError\<close>: the flags left, and whether one was deleted.\<close>

definition scrubUnsupportedFlagsFromError :: "flags \<Rightarrow> string \<Rightarrow> flags \<times> bool" where
  "scrubUnsupportedFlagsFromError flgs errMsg =
     (let (f1, changed1) =
            (if containsCI ''enableModbusSorting'' errMsg \<and> enableModbusSorting flgs \<noteq> None
             then (flgs\<lparr>enableModbusSorting := None\<rparr>, True) else (flgs, False));
          (f2, changed2) =
            (if containsCI ''enableLegacyMode'' errMsg \<and> enableLegacyMode f1 \<noteq> None
             then (f1\<lparr>enableLegacyMode := None\<rparr>, True) else (f1, changed1))
      in (f2, changed2))"

subsection \<open>setFlags and setModbusMode\<close>

text \<open>
  The outcome object: \<open>{ ok, selection, appliedFlags }\<close> on success,
  \<open>{ ok: false, skipped: true, reason, appliedFlags }\<close> otherwise (the echoed response
  node is left out).
\<close>

record outcome =
  ok :: bool
  skipped :: bool
  reason :: "string option"
  selection :: "string option"
  appliedFlags :: "flags option"

text \<open>
  The inner loop \<open>for (const selection of SELECTIONS)\<close>: it returns from setFlags with
  an outcome (\<open>Some\<close>), or ends, by \<open>break\<close> or by running out of selections
  (\<open>None\<close>), with the flags as they then are.
\<close>

fun selectionLoop ::
  "'s fetch \<Rightarrow> string list \<Rightarrow> flags \<Rightarrow> 's \<Rightarrow> (exn + outcome option \<times> flags) \<times> 's" where
  "selectionLoop fetchImpl [] flagsToSend s = (Inr (None, flagsToSend), s)"
| "selectionLoop fetchImpl (sel # rest) flagsToSend s =
     (case postUpdate fetchImpl flagsToSend sel s of
        (Inl e, s') \<Rightarrow> (Inl e, s')
      | (Inr res, s') \<Rightarrow>
          if prOk res then
            (Inr (Some \<lparr>ok = True, skipped = False, reason = None, selection = Some sel,
                         appliedFlags = Some flagsToSend\<rparr>, flagsToSend), s')
          else
            let msg = (case prError res of Some m \<Rightarrow> m | None \<Rightarrow> '''') in
            if selectionTooAmbitious msg then selectionLoop fetchImpl rest flagsToSend s'
            else if inputsNotSupported msg then
              (case scrubUnsupportedFlagsFromError flagsToSend msg of
                 (flags', removed) \<Rightarrow>
                   if removed then (Inr (None, flags'), s')
                   else selectionLoop fetchImpl rest flags' s')
            else selectionLoop fetchImpl rest flagsToSend s')"

text \<open>The outer loop \<open>for (let attempt = 0; attempt < 6; attempt++)\<close>, by attempts left.\<close>

fun attemptLoop :: "'s fetch \<Rightarrow> nat \<Rightarrow> flags \<Rightarrow> 's \<Rightarrow> (exn + outcome) \<times> 's" where
  "attemptLoop fetchImpl 0 flagsToSend s =
     (Inr \<lparr>ok = False, skipped = True, reason = Some ''Exhausted retries'',
            selection = None, appliedFlags = Some flagsToSend\<rparr>, s)"
| "attemptLoop fetchImpl (Suc n) flagsToSend s =
     (case selectionLoop fetchImpl SELECTIONS flagsToSend s of
        (Inl e, s') \<Rightarrow> (Inl e, s')
      | (Inr (Some out, flags'), s') \<Rightarrow> (Inr out, s')
      | (Inr (None, flags'), s') \<Rightarrow>
          if enableLegacyMode flags' = None \<and> enableModbusSorting flags' = None then
            (Inr \<lparr>ok = False, skipped = True, reason = Some ''Unsupported flags'',
                   selection = None,
                   appliedFlags = Some \<lparr>enableLegacyMode = None, enableModbusSorting = None\<rparr>\<rparr>,
             s')
          else attemptLoop fetchImpl n flags' s')"

definition setFlags :: "'s fetch \<Rightarrow> flags \<Rightarrow> 's \<Rightarrow> (exn + outcome) \<times> 's" where
  "setFlags fetchImpl flgs s = attemptLoop fetchImpl 6 flgs s"

text \<open>
  \<open>setModbusMode(mode, options)\<close>. The options only build the URL and the headers of the
  request and switch the logging; what the caller gets back is decided by the mode and by
  the exchanges. \<open>Inl\<close> is a rejected promise: an exception raised to the caller.
\<close>

definition setModbusMode :: "'s fetch \<Rightarrow> string \<Rightarrow> 's \<Rightarrow> (exn + outcome) \<times> 's" where
  "setModbusMode fetchImpl mode s =
     (case MODE_MAP (toLowerCase mode) of
        None \<Rightarrow>
          (Inr \<lparr>ok = False, skipped = True,
                 reason = Some (''Invalid mode '' @ [CHR 0x22] @ mode @ [CHR 0x22]),
                 selection = None, appliedFlags = None\<rparr>, s)
      | Some flgs \<Rightarrow> setFlags fetchImpl flgs s)"

text \<open>
  A transport that never makes the module throw: \<open>fetch\<close> always resolves, and never to
  a 2xx response whose body is the JSON value \<open>null\<close>.
\<close>

definition neverThrows :: "'s fetch \<Rightarrow> bool" where
  "neverThrows fetchImpl =
     (\<forall>s sel vars. case fst (fetchImpl s sel vars) of
                      Rejects m \<Rightarrow> False
                    | Resolves res \<Rightarrow> \<not> (parsed res = JsonNull \<and> resOk res))"

definition structuredOutcome :: "outcome \<Rightarrow> bool" where
  "structuredOutcome out = (if ok out then \<not> skipped out else skipped out \<and> reason out \<noteq> None)"

section \<open>Properties of the rounding to doubles\<close>

lemma roundHalfEven_of_int: "roundHalfEven (of_int n) = n"
  by (simp add: roundHalfEven_def)

lemma roundHalfEven_close: "\<bar>of_int (roundHalfEven m) - m\<bar> \<le> 1 / 2"
proof -
  have "of_int \<lfloor>m\<rfloor> \<le> m" "m < of_int \<lfloor>m\<rfloor> + 1"
    by linarith+
  then show ?thesis
    by (auto simp: roundHalfEven_def Let_def abs_le_iff)
qed

lemma floorLog2_bounds:
  assumes "0 < a"
  shows "2 powi floorLog2 a \<le> a" and "a < 2 powi (floorLog2 a + 1)"
proof -
  obtain n d where q: "quotient_of a = (n, d)"
    by (cases "quotient_of a") auto
  have d: "0 < d" using q by (rule quotient_of_denom_pos)
  have a: "a = of_int n / of_int d" using q by (rule quotient_of_div)
  have n: "0 < n"
    using assms d unfolding a by (simp add: zero_less_divide_iff)
  define bn where "bn = bitlen n"
  define bd where "bd = bitlen d"
  have bn1: "1 \<le> bn" and bd1: "1 \<le> bd"
    using n d bitlen_eq_zero_iff [of n] bitlen_eq_zero_iff [of d] bitlen_nonneg [of n]
      bitlen_nonneg [of d]
    unfolding bn_def bd_def by linarith+
  have nb: "2 ^ nat (bn - 1) \<le> n" "n < 2 ^ nat bn"
    using bitlen_bounds [OF n] unfolding bn_def by simp_all
  have db: "2 ^ nat (bd - 1) \<le> d" "d < 2 ^ nat bd"
    using bitlen_bounds [OF d] unfolding bd_def by simp_all
  have rn: "(2::rat) powi (bn - 1) \<le> of_int n" "rat_of_int n < 2 powi bn"
  proof -
    have "rat_of_int (2 ^ nat (bn - 1)) \<le> of_int n"
      using nb(1) by (simp only: of_int_le_iff)
    then show "(2::rat) powi (bn - 1) \<le> of_int n"
      using bn1 by (simp add: power_int_def)
    have "rat_of_int n < of_int (2 ^ nat bn)"
      using nb(2) by (simp only: of_int_less_iff)
    then show "rat_of_int n < 2 powi bn"
      using bn1 by (simp add: power_int_def)
  qed
  have rd: "(2::rat) powi (bd - 1) \<le> of_int d" "rat_of_int d < 2 powi bd"
  proof -
    have "rat_of_int (2 ^ nat (bd - 1)) \<le> of_int d"
      using db(1) by (simp only: of_int_le_iff)
    then show "(2::rat) powi (bd - 1) \<le> of_int d"
      using bd1 by (simp add: power_int_def)
    have "rat_of_int d < of_int (2 ^ nat bd)"
      using db(2) by (simp only: of_int_less_iff)
    then show "rat_of_int d < 2 powi bd"
      using bd1 by (simp add: power_int_def)
  qed
  have pos: "\<And>e. (0::rat) < 2 powi e"
    by simp
  have dpos: "(0::rat) < of_int d" using d by simp
  have lo: "(2::rat) powi (bn - bd - 1) < a"
  proof -
    have eq: "bn - bd - 1 = (bn - 1) - bd"
      by simp
    have "(2::rat) powi (bn - bd - 1) = 2 powi (bn - 1) / 2 powi bd"
      unfolding eq by (rule power_int_diff) simp
    also have "\<dots> \<le> of_int n / 2 powi bd"
      by (intro divide_right_mono) (simp_all add: rn(1))
    also have "\<dots> < of_int n / of_int d"
      by (intro divide_strict_left_mono) (simp_all add: rd(2) n d)
    finally show ?thesis unfolding a .
  qed
  have hi: "a < (2::rat) powi (bn - bd + 1)"
  proof -
    have "a < 2 powi bn / of_int d"
      unfolding a by (intro divide_strict_right_mono) (simp_all add: rn(2) d)
    also have "\<dots> \<le> 2 powi bn / 2 powi (bd - 1)"
      by (intro frac_le) (simp_all add: rd(1))
    also have "\<dots> = 2 powi (bn - (bd - 1))"
      by (rule power_int_diff [symmetric]) simp
    finally have "a < (2::rat) powi (bn - (bd - 1))" .
    moreover have "bn - (bd - 1) = bn - bd + 1"
      by simp
    ultimately show ?thesis
      by (simp only:)
  qed
  have f: "floorLog2 a = (if 2 powi (bn - bd) \<le> a then bn - bd else bn - bd - 1)"
    using q by (simp add: floorLog2_def bn_def bd_def Let_def)
  show "2 powi floorLog2 a \<le> a"
    using lo by (simp add: f)
  show "a < 2 powi (floorLog2 a + 1)"
    using hi by (auto simp: f)
qed


lemma floorLog2_less_53:
  assumes "0 < a" and "a < 2 ^ 53"
  shows "floorLog2 a < 53"
proof (rule ccontr)
  assume "\<not> floorLog2 a < 53"
  then have "(2::rat) powi 53 \<le> 2 powi floorLog2 a"
    by (intro power_int_increasing) simp_all
  also have "\<dots> \<le> a"
    using assms(1) by (rule floorLog2_bounds)
  finally show False
    using assms(2) by simp
qed

lemma power_int_nonpos: "g \<le> 0 \<Longrightarrow> (2::rat) powi g = 1 / 2 ^ nat (- g)"
  by (cases "g = 0") (simp_all add: power_int_def field_simps)

lemma roundDouble_int:
  assumes "\<bar>n\<bar> < 2 ^ 53"
  shows "roundDouble (of_int n) = Fin (of_int n)"
proof (cases "n = 0")
  case True
  then show ?thesis by (simp add: roundDouble_def)
next
  case False
  define a where "a = rat_of_int \<bar>n\<bar>"
  have apos: "0 < a" using False by (simp add: a_def)
  have "rat_of_int \<bar>n\<bar> < rat_of_int (2 ^ 53)"
    using assms by (simp only: of_int_less_iff)
  then have alt: "a < 2 ^ 53" by (simp add: a_def)
  define e where "e = floorLog2 a"
  have e: "e < 53" unfolding e_def using apos alt by (rule floorLog2_less_53)
  define g where "g = max (e - 52) (- 1074)"
  have g: "g \<le> 0" using e by (simp add: g_def)
  define k where "k = nat (- g)"
  have u: "(2::rat) powi g = 1 / 2 ^ k"
    unfolding k_def using g by (rule power_int_nonpos)
  have m: "a / (2 powi g) = rat_of_int (\<bar>n\<bar> * 2 ^ k)"
    by (simp add: u a_def)
  have r: "roundHalfEven (a / (2 powi g)) = \<bar>n\<bar> * 2 ^ k"
    unfolding m by (rule roundHalfEven_of_int)
  have v: "rat_of_int (\<bar>n\<bar> * 2 ^ k) * (2 powi g) = a"
    by (simp add: u a_def)
  have "roundMagnitude a = Some a"
    unfolding roundMagnitude_def Let_def e_def [symmetric] g_def [symmetric] r v
    using e by simp
  then have "roundDouble (of_int n) = Fin (if 0 < n then a else - a)"
    using False by (simp add: roundDouble_def a_def)
  also have "(if 0 < n then a else - a) = rat_of_int n"
    by (simp add: a_def)
  finally show ?thesis .
qed

lemma roundDouble_close:
  assumes "1 / 100 \<le> a" and "a < 2 ^ 53"
  shows "\<exists>v. roundDouble a = Fin v \<and> \<bar>v - a\<bar> \<le> a / 2 ^ 53"
proof -
  have apos: "0 < a" using assms(1) by simp
  define e where "e = floorLog2 a"
  have e: "e < 53" unfolding e_def using apos assms(2) by (rule floorLog2_less_53)
  have le: "2 powi e \<le> a" unfolding e_def using apos by (rule floorLog2_bounds)
  define g where "g = max (e - 52) (- 1074)"
  define u where "u = (2::rat) powi g"
  have upos: "0 < u" by (simp add: u_def)
  have small: "(2::rat) powi (- 1022) \<le> a"
  proof -
    have "(2::rat) powi (- 1022) \<le> 2 powi (- 7)"
      by (intro power_int_increasing) simp_all
    also have "\<dots> \<le> 1 / 100"
      by (simp add: power_int_nonpos)
    finally have "(2::rat) powi (- 1022) \<le> 1 / 100" .
    then show ?thesis using assms(1) by (rule order_trans)
  qed
  have ule: "u \<le> a / 2 ^ 52"
  proof (cases "- 1074 \<le> e - 52")
    case True
    then have "u = 2 powi (e - 52)" by (simp add: u_def g_def)
    also have "\<dots> = 2 powi e / 2 powi 52"
      by (rule power_int_diff) simp
    also have "\<dots> \<le> a / 2 powi 52"
      using le by (rule divide_right_mono) simp
    finally show ?thesis by simp
  next
    case False
    then have "u = 2 powi (- 1022 - 52)" by (simp add: u_def g_def)
    also have "\<dots> = 2 powi (- 1022) / 2 powi 52"
      by (rule power_int_diff) simp
    also have "\<dots> \<le> a / 2 powi 52"
      using small by (rule divide_right_mono) simp
    finally show ?thesis by simp
  qed
  define r where "r = roundHalfEven (a / u)"
  have "\<bar>rat_of_int r - a / u\<bar> \<le> 1 / 2"
    unfolding r_def by (rule roundHalfEven_close)
  then have "\<bar>rat_of_int r - a / u\<bar> * u \<le> 1 / 2 * u"
    using upos by (intro mult_right_mono) simp_all
  moreover have "\<bar>rat_of_int r - a / u\<bar> * u = \<bar>rat_of_int r * u - a\<bar>"
  proof -
    have "\<bar>rat_of_int r - a / u\<bar> * u = \<bar>(rat_of_int r - a / u) * u\<bar>"
      using upos by (simp add: abs_mult)
    also have "(rat_of_int r - a / u) * u = rat_of_int r * u - a"
      using upos by (simp add: field_simps)
    finally show ?thesis .
  qed
  ultimately have "\<bar>rat_of_int r * u - a\<bar> \<le> u / 2" by simp
  also have "\<dots> \<le> a / 2 ^ 53"
    using ule by simp
  finally have close: "\<bar>rat_of_int r * u - a\<bar> \<le> a / 2 ^ 53" .
  have "roundMagnitude a = Some (rat_of_int r * u)"
    unfolding roundMagnitude_def Let_def e_def [symmetric] g_def [symmetric]
      u_def [symmetric] r_def [symmetric]
    using e by simp
  then have "roundDouble a = Fin (rat_of_int r * u)"
    using apos by (simp add: roundDouble_def)
  then show ?thesis using close by blast
qed

lemma roundDouble_div100:
  assumes "0 \<le> x" and "x < 2 ^ 53"
  shows "\<exists>v. roundDouble (rat_of_int x / 100) = Fin v \<and> \<lfloor>v\<rfloor> = x div 100"
proof (cases "x mod 100 = 0")
  case True
  then have "x = 100 * (x div 100)" by auto
  then have "rat_of_int x = rat_of_int (100 * (x div 100))" by simp
  then have eq: "rat_of_int x / 100 = rat_of_int (x div 100)" by simp
  have x: "x = 100 * (x div 100)" using True by auto
  have "0 \<le> x div 100" using assms(1) by simp
  moreover from this x have "x div 100 \<le> x" by linarith
  ultimately have "\<bar>x div 100\<bar> < 2 ^ 53" using assms(2) by simp
  then have "roundDouble (rat_of_int (x div 100)) = Fin (rat_of_int (x div 100))"
    by (rule roundDouble_int)
  then show ?thesis unfolding eq by simp
next
  case False
  define K where "K = x div 100"
  define r where "r = x mod 100"
  have r: "1 \<le> r" "r \<le> 99"
    using False pos_mod_sign [of 100 x] pos_mod_bound [of 100 x] unfolding r_def by linarith+
  have "x = 100 * K + r" by (simp add: K_def r_def)
  then have "rat_of_int x = rat_of_int (100 * K + r)" by simp
  then have a: "rat_of_int x / 100 = rat_of_int K + rat_of_int r / 100" by simp
  define a where "a = rat_of_int x / 100"
  have rr: "1 \<le> rat_of_int r" "rat_of_int r \<le> 99"
    using r by simp_all
  have lo: "rat_of_int K + 1 / 100 \<le> a" and hi: "a \<le> rat_of_int K + 99 / 100"
    unfolding a_def a using rr by simp_all
  have "1 \<le> x" using False assms(1) by (cases "x = 0") auto
  then have "1 \<le> rat_of_int x" by simp
  then have a1: "1 / 100 \<le> a" by (simp add: a_def)
  have "rat_of_int x < rat_of_int (2 ^ 53)"
    using assms(2) by (simp only: of_int_less_iff)
  then have xlt: "rat_of_int x < 2 ^ 53" by simp
  then have a2: "a < 2 ^ 53" using assms(1) by (simp add: a_def)
  obtain v where v: "roundDouble a = Fin v" "\<bar>v - a\<bar> \<le> a / 2 ^ 53"
    using roundDouble_close [OF a1 a2] by blast
  have "a / 2 ^ 53 < 1 / 100"
    using xlt by (simp add: a_def)
  then have d: "\<bar>v - a\<bar> < 1 / 100" using v(2) by simp
  have "rat_of_int K \<le> v" "v < rat_of_int K + 1"
    using d lo hi by linarith+
  then have "\<lfloor>v\<rfloor> = K"
    by (intro floor_unique) simp_all
  then show ?thesis using v(1) by (simp add: a_def K_def)
qed

section \<open>Properties of the address math\<close>

subsection \<open>Integer arithmetic below \<open>2^53\<close> is exact\<close>

lemma jsSub_int:
  "\<bar>x - y\<bar> < 2 ^ 53 \<Longrightarrow> jsSub (Fin (of_int x)) (Fin (of_int y)) = Fin (of_int (x - y))"
  using roundDouble_int [of "x - y"] by simp

lemma jsAdd_int:
  "\<bar>x + y\<bar> < 2 ^ 53 \<Longrightarrow> jsAdd (Fin (of_int x)) (Fin (of_int y)) = Fin (of_int (x + y))"
  using roundDouble_int [of "x + y"] by simp

lemma jsMul_int:
  "\<bar>x * y\<bar> < 2 ^ 53 \<Longrightarrow> jsMul (Fin (of_int x)) (Fin (of_int y)) = Fin (of_int (x * y))"
  using roundDouble_int [of "x * y"] by simp

lemma div100_bounds:
  fixes x :: int
  assumes "0 \<le> x"
  shows "0 \<le> x div 100" and "x div 100 \<le> x" and "x - (x div 100) * 100 = x mod 100"
    and "100 * (x div 100) \<le> x"
proof -
  show d: "0 \<le> x div 100" using assms by simp
  have "x = 100 * (x div 100) + x mod 100" by simp
  moreover have "0 \<le> x mod 100" by simp
  ultimately show c: "100 * (x div 100) \<le> x" by linarith
  show "x div 100 \<le> x" using c d by linarith
  show "x - (x div 100) * 100 = x mod 100"
    by (simp add: minus_div_mult_eq_mod)
qed

lemma toLowerCase_row: "toLowerCase ''row'' = ''row''"
  by code_simp


subsection \<open>The unit id and the start address on integers\<close>

lemma computeUnitId_row:
  fixes k :: int
  assumes "toLowerCase deviceType = ''row''" and "1 \<le> k" and "k \<le> 2 ^ 53"
  shows "computeUnitId deviceType (Fin (of_int k)) = Inr (Fin (of_int ((k - 1) div 100 + 1)))"
proof -
  define D where "D = (k - 1) div 100"
  have x: "0 \<le> k - 1" "k - 1 < 2 ^ 53" using assms(2,3) by simp_all
  have D: "0 \<le> D" "100 * D \<le> k - 1"
    unfolding D_def using x(1) by (rule div100_bounds)+
  have "\<bar>k - 1\<bar> < 2 ^ 53" using x by simp
  then have "jsSub (Fin (of_int k)) (Fin (of_int 1)) = Fin (of_int (k - 1))"
    by (rule jsSub_int)
  then have s: "jsSub (Fin (of_int k)) (Fin 1) = Fin (of_int (k - 1))"
    by (simp only: of_int_1)
  obtain v where v: "roundDouble (rat_of_int (k - 1) / 100) = Fin v" "\<lfloor>v\<rfloor> = D"
    unfolding D_def using roundDouble_div100 [OF x] by blast
  have d: "jsDiv (Fin (of_int (k - 1))) (Fin 100) = Fin v"
    using v(1) by simp
  have f: "jsFloor (Fin v) = Fin (of_int D)"
    using v(2) by simp
  have "D + 1 < 9007199254740992" using D x by simp
  then have "\<bar>D + 1\<bar> < 2 ^ 53" using D(1) by simp
  then have "jsAdd (Fin (of_int D)) (Fin (of_int 1)) = Fin (of_int (D + 1))"
    by (rule jsAdd_int)
  then have a: "jsAdd (Fin (of_int D)) (Fin 1) = Fin (of_int (D + 1))"
    by (simp only: of_int_1)
  have "computeUnitId deviceType (Fin (of_int k))
          = Inr (jsAdd (jsFloor (jsDiv (jsSub (Fin (of_int k)) (Fin 1)) (Fin 100))) (Fin 1))"
    using assms(1,2)
    by (simp add: computeUnitId_def del: jsAdd.simps jsSub.simps jsDiv.simps jsFloor.simps)
  then show ?thesis
    unfolding s d f a unfolding D_def .
qed

lemma computeUnitId_row_int:
  "1 \<le> k \<Longrightarrow> k \<le> 2 ^ 53
     \<Longrightarrow> computeUnitId ''row'' (Fin (of_int k)) = Inr (Fin (of_int ((k - 1) div 100 + 1)))"
  using toLowerCase_row by (rule computeUnitId_row)


lemma row_expr_int:
  fixes k u b :: int
  assumes "\<bar>k\<bar> \<le> 2 ^ 32" and "\<bar>u\<bar> \<le> 2 ^ 32" and "\<bar>b\<bar> \<le> 2 ^ 32"
  shows "jsAdd (jsMul (jsSub (jsSub (Fin (of_int k)) (Fin 1))
                        (jsMul (jsSub (Fin (of_int u)) (Fin 1)) (Fin 100)))
                 (Fin 512))
           (Fin (of_int b))
           = Fin (of_int (((k - 1) - (u - 1) * 100) * 512 + b))"
proof -
  have k: "- 4294967296 \<le> k" "k \<le> 4294967296" and u: "- 4294967296 \<le> u" "u \<le> 4294967296"
    and b: "- 4294967296 \<le> b" "b \<le> 4294967296"
    using assms by simp_all
  have "\<bar>k - 1\<bar> < 2 ^ 53" using k by simp
  then have "jsSub (Fin (of_int k)) (Fin (of_int 1)) = Fin (of_int (k - 1))"
    by (rule jsSub_int)
  then have s1: "jsSub (Fin (of_int k)) (Fin 1) = Fin (of_int (k - 1))"
    by (simp only: of_int_1)
  have "\<bar>u - 1\<bar> < 2 ^ 53" using u by simp
  then have "jsSub (Fin (of_int u)) (Fin (of_int 1)) = Fin (of_int (u - 1))"
    by (rule jsSub_int)
  then have s2: "jsSub (Fin (of_int u)) (Fin 1) = Fin (of_int (u - 1))"
    by (simp only: of_int_1)
  have "\<bar>(u - 1) * 100\<bar> < 2 ^ 53" using u by simp
  then have "jsMul (Fin (of_int (u - 1))) (Fin (of_int 100)) = Fin (of_int ((u - 1) * 100))"
    by (rule jsMul_int)
  then have m1: "jsMul (Fin (of_int (u - 1))) (Fin 100) = Fin (of_int ((u - 1) * 100))"
    by (simp only: of_int_numeral)
  have "\<bar>(k - 1) - (u - 1) * 100\<bar> < 2 ^ 53" using k u by simp
  then have s3: "jsSub (Fin (of_int (k - 1))) (Fin (of_int ((u - 1) * 100)))
                   = Fin (of_int ((k - 1) - (u - 1) * 100))"
    by (rule jsSub_int)
  have "\<bar>((k - 1) - (u - 1) * 100) * 512\<bar> < 2 ^ 53" using k u by simp
  then have "jsMul (Fin (of_int ((k - 1) - (u - 1) * 100))) (Fin (of_int 512))
               = Fin (of_int (((k - 1) - (u - 1) * 100) * 512))"
    by (rule jsMul_int)
  then have m2: "jsMul (Fin (of_int ((k - 1) - (u - 1) * 100))) (Fin 512)
               = Fin (of_int (((k - 1) - (u - 1) * 100) * 512))"
    by (simp only: of_int_numeral)
  have "\<bar>((k - 1) - (u - 1) * 100) * 512 + b\<bar> < 2 ^ 53" using k u b by simp
  then have a: "jsAdd (Fin (of_int (((k - 1) - (u - 1) * 100) * 512))) (Fin (of_int b))
                  = Fin (of_int (((k - 1) - (u - 1) * 100) * 512 + b))"
    by (rule jsAdd_int)
  show ?thesis
    by (simp only: s1 s2 m1 s3 m2 a)
qed






subsection \<open>Steps of the start address\<close>

lemma bank_same:
  fixes k :: int
  assumes "k mod 100 \<noteq> 0"
  shows "(k - 1) div 100 = k div 100" and "(k - 1) mod 100 = k mod 100 - 1"
proof -
  have r: "0 \<le> k mod 100 - 1" "k mod 100 - 1 < 100"
    using assms pos_mod_sign [of 100 k] pos_mod_bound [of 100 k] by linarith+
  have e: "k - 1 = 100 * (k div 100) + (k mod 100 - 1)"
    by simp
  show "(k - 1) div 100 = k div 100"
    using e r by (rule int_div_pos_eq)
  show "(k - 1) mod 100 = k mod 100 - 1"
    using e r by (rule int_mod_pos_eq)
qed

lemma bank_next:
  fixes k :: int
  assumes "k mod 100 = 0"
  shows "(k - 1) div 100 = k div 100 - 1"
proof -
  have e: "k - 1 = 100 * (k div 100 - 1) + 99"
    using assms mult_div_mod_eq [of 100 k] by simp
  show ?thesis
    using e by (rule int_div_pos_eq) simp_all
qed

lemma row_start_mod:
  fixes k b :: int
  assumes "1 \<le> k" and "k \<le> 100001" and "0 \<le> b" and "b \<le> 65536"
  shows "computeStartingAddressForType ''row'' (Fin (of_int k))
           (Fin (of_int ((k - 1) div 100 + 1))) (Fin (of_int b))
         = Fin (of_int (((k - 1) mod 100) * 512 + b))"
proof -
  define u where "u = (k - 1) div 100 + 1"
  have x: "0 \<le> k - 1" using assms(1) by simp
  have D: "0 \<le> (k - 1) div 100" "(k - 1) div 100 \<le> k - 1"
    using x by (rule div100_bounds)+
  have m: "(k - 1) - (u - 1) * 100 = (k - 1) mod 100"
    unfolding u_def using div100_bounds(3) [OF x] by simp
  have kb: "\<bar>k\<bar> \<le> 2 ^ 32" using assms(1,2) by simp
  have ub: "\<bar>u\<bar> \<le> 2 ^ 32" using D assms(2) by (simp add: u_def)
  have bb: "\<bar>b\<bar> \<le> 2 ^ 32" using assms(3,4) by simp
  have "computeStartingAddressForType ''row'' (Fin (of_int k)) (Fin (of_int u)) (Fin (of_int b))
          = Fin (of_int (((k - 1) - (u - 1) * 100) * 512 + b))"
    unfolding computeStartingAddressForType_def Let_def toLowerCase_row
    using row_expr_int [OF kb ub bb] by simp
  then have "computeStartingAddressForType ''row'' (Fin (of_int k)) (Fin (of_int u))
          (Fin (of_int b)) = Fin (of_int (((k - 1) mod 100) * 512 + b))"
    by (simp only: m)
  then show ?thesis
    unfolding u_def .
qed

lemma row_steps:
  fixes k b :: int
  assumes "1 \<le> k" and "k \<le> 100000" and "0 \<le> b" and "b \<le> 65535"
    and "computeUnitId ''row'' (Fin (of_int k)) = Inr u"
    and "computeUnitId ''row'' (Fin (of_int (k + 1))) = Inr u'"
  shows "u = Fin (of_int ((k - 1) div 100 + 1))"
    and "computeStartingAddressForType ''row'' (Fin (of_int k)) u (Fin (of_int b))
           = Fin (of_int (((k - 1) mod 100) * 512 + b))"
    and "computeStartingAddressForType ''row'' (Fin (of_int k)) u (Fin (of_int (b + 1)))
           = Fin (of_int (((k - 1) mod 100) * 512 + b + 1))"
    and "k mod 100 \<noteq> 0 \<longrightarrow> u' = u \<and>
           computeStartingAddressForType ''row'' (Fin (of_int (k + 1))) u' (Fin (of_int b))
             = Fin (of_int (((k - 1) mod 100) * 512 + b + 512))"
    and "k mod 100 = 0 \<longrightarrow> u' = Fin (of_int ((k - 1) div 100 + 2)) \<and>
           computeStartingAddressForType ''row'' (Fin (of_int (k + 1))) u' (Fin (of_int b))
             = Fin (of_int b)"
proof -
  have k53: "k \<le> 2 ^ 53" "1 \<le> k + 1" "k + 1 \<le> 2 ^ 53" "k \<le> 100001" "k + 1 \<le> 100001"
    using assms(1,2) by simp_all
  have b1: "0 \<le> b + 1" "b + 1 \<le> 65536" "b \<le> 65536"
    using assms(3,4) by simp_all
  have "computeUnitId ''row'' (Fin (of_int k)) = Inr (Fin (of_int ((k - 1) div 100 + 1)))"
    using assms(1) k53(1) by (rule computeUnitId_row_int)
  then show u: "u = Fin (of_int ((k - 1) div 100 + 1))"
    using assms(5) by simp
  have "computeUnitId ''row'' (Fin (of_int (k + 1)))
          = Inr (Fin (of_int ((k + 1 - 1) div 100 + 1)))"
    using k53(2,3) by (rule computeUnitId_row_int)
  then have u': "u' = Fin (of_int (k div 100 + 1))"
    using assms(6) by simp
  show sk: "computeStartingAddressForType ''row'' (Fin (of_int k)) u (Fin (of_int b))
           = Fin (of_int (((k - 1) mod 100) * 512 + b))"
    unfolding u using assms(1) k53(4) assms(3) b1(3) by (rule row_start_mod)
  have "computeStartingAddressForType ''row'' (Fin (of_int k)) u (Fin (of_int (b + 1)))
           = Fin (of_int (((k - 1) mod 100) * 512 + (b + 1)))"
    unfolding u using assms(1) k53(4) b1(1,2) by (rule row_start_mod)
  then show "computeStartingAddressForType ''row'' (Fin (of_int k)) u (Fin (of_int (b + 1)))
           = Fin (of_int (((k - 1) mod 100) * 512 + b + 1))"
    by (simp only: add.assoc)
  have "computeStartingAddressForType ''row'' (Fin (of_int (k + 1)))
          (Fin (of_int ((k + 1 - 1) div 100 + 1))) (Fin (of_int b))
          = Fin (of_int (((k + 1 - 1) mod 100) * 512 + b))"
    using k53(2,5) assms(3) b1(3) by (rule row_start_mod)
  then have sk': "computeStartingAddressForType ''row'' (Fin (of_int (k + 1))) u'
          (Fin (of_int b)) = Fin (of_int ((k mod 100) * 512 + b))"
    unfolding u' by simp
  show "k mod 100 \<noteq> 0 \<longrightarrow> u' = u \<and>
           computeStartingAddressForType ''row'' (Fin (of_int (k + 1))) u' (Fin (of_int b))
             = Fin (of_int (((k - 1) mod 100) * 512 + b + 512))"
  proof
    assume nz: "k mod 100 \<noteq> 0"
    have d: "(k - 1) div 100 = k div 100"
      using nz by (rule bank_same)
    have m: "(k - 1) mod 100 = k mod 100 - 1"
      using nz by (rule bank_same)
    have e: "(k mod 100) * 512 + b = ((k - 1) mod 100) * 512 + b + 512"
      unfolding m by simp
    have "u' = u"
      unfolding u u' d by (rule refl)
    moreover have "computeStartingAddressForType ''row'' (Fin (of_int (k + 1))) u'
          (Fin (of_int b)) = Fin (of_int (((k - 1) mod 100) * 512 + b + 512))"
      unfolding sk' e by (rule refl)
    ultimately show "u' = u \<and>
           computeStartingAddressForType ''row'' (Fin (of_int (k + 1))) u' (Fin (of_int b))
             = Fin (of_int (((k - 1) mod 100) * 512 + b + 512))"
      by (rule conjI)
  qed
  show "k mod 100 = 0 \<longrightarrow> u' = Fin (of_int ((k - 1) div 100 + 2)) \<and>
           computeStartingAddressForType ''row'' (Fin (of_int (k + 1))) u' (Fin (of_int b))
             = Fin (of_int b)"
  proof
    assume z: "k mod 100 = 0"
    have d: "(k - 1) div 100 = k div 100 - 1"
      using z by (rule bank_next)
    have "u' = Fin (of_int ((k - 1) div 100 + 2))"
      unfolding u' d by simp
    moreover have "computeStartingAddressForType ''row'' (Fin (of_int (k + 1))) u'
          (Fin (of_int b)) = Fin (of_int b)"
      unfolding sk' z by simp
    ultimately show "u' = Fin (of_int ((k - 1) div 100 + 2)) \<and>
           computeStartingAddressForType ''row'' (Fin (of_int (k + 1))) u' (Fin (of_int b))
             = Fin (of_int b)"
      by (rule conjI)
  qed
qed

text \<open>
  C9, as amended. For every row identifier \<open>k\<close> with \<open>1 \<le> k \<le> 100000\<close>, its unit id
  \<open>u\<close> and every integer base register \<open>b\<close> of the register range \<open>0 \<le> b \<le> 65535\<close>:
  \<open>u = floor((k-1)/100) + 1\<close>; the start address is \<open>((k-1) mod 100) * 512 + b\<close>, so it
  grows by 1 (not 512) when the base register grows by 1; it grows by 512 from
  identifier \<open>k\<close> to \<open>k + 1\<close> inside a bank of 100 identifiers; and the first identifier
  of the next bank, under the next unit id, starts again at the base register itself.
\<close>

theorem row_start_address_steps:
  fixes k b :: int
  assumes "1 \<le> k" and "k \<le> 100000" and "0 \<le> b" and "b \<le> 65535"
    and "computeUnitId ''row'' (Fin (of_int k)) = Inr u"
    and "computeUnitId ''row'' (Fin (of_int (k + 1))) = Inr u'"
  shows "u = Fin (of_int ((k - 1) div 100 + 1))
    \<and> computeStartingAddressForType ''row'' (Fin (of_int k)) u (Fin (of_int b))
        = Fin (of_int (((k - 1) mod 100) * 512 + b))
    \<and> computeStartingAddressForType ''row'' (Fin (of_int k)) u (Fin (of_int (b + 1)))
        = Fin (of_int (((k - 1) mod 100) * 512 + b + 1))
    \<and> (k mod 100 \<noteq> 0 \<longrightarrow> u' = u \<and>
           computeStartingAddressForType ''row'' (Fin (of_int (k + 1))) u' (Fin (of_int b))
             = Fin (of_int (((k - 1) mod 100) * 512 + b + 512)))
    \<and> (k mod 100 = 0 \<longrightarrow> u' = Fin (of_int ((k - 1) div 100 + 2)) \<and>
           computeStartingAddressForType ''row'' (Fin (of_int (k + 1))) u' (Fin (of_int b))
             = Fin (of_int b))"
  using row_steps(1) [OF assms] row_steps(2) [OF assms] row_steps(3) [OF assms]
    row_steps(4) [OF assms] row_steps(5) [OF assms]
  by blast

theorem row_start_address_steps_witness:
  "computeStartingAddressForType ''row'' (Fin 100) (Fin 1) (Fin 7) = Fin 50695
   \<and> computeStartingAddressForType ''row'' (Fin 100) (Fin 1) (Fin 8) = Fin 50696
   \<and> computeStartingAddressForType ''row'' (Fin 101) (Fin 2) (Fin 7) = Fin 7
   \<and> computeStartingAddressForType ''row'' (Fin 99) (Fin 1) (Fin 7) = Fin 50183"
proof -
  have a: "(1::int) \<le> 100" "(100::int) \<le> 100000" "(1::int) \<le> 99" "(99::int) \<le> 100000"
    "(0::int) \<le> 7" "(7::int) \<le> 65535"
    by simp_all
  have u100: "computeUnitId ''row'' (Fin (of_int 100)) = Inr (Fin 1)"
    and u101: "computeUnitId ''row'' (Fin (of_int (100 + 1))) = Inr (Fin 2)"
    and u99: "computeUnitId ''row'' (Fin (of_int 99)) = Inr (Fin 1)"
    and u100': "computeUnitId ''row'' (Fin (of_int (99 + 1))) = Inr (Fin 1)"
    by code_simp+
  note w1 = row_start_address_steps [OF a(1) a(2) a(5) a(6) u100 u101]
  note w2 = row_start_address_steps [OF a(3) a(4) a(5) a(6) u99 u100']
  have "computeStartingAddressForType ''row'' (Fin 100) (Fin 1) (Fin 7) = Fin 50695"
    using w1 [THEN conjunct2, THEN conjunct1] by simp
  moreover have "computeStartingAddressForType ''row'' (Fin 100) (Fin 1) (Fin 8) = Fin 50696"
    using w1 [THEN conjunct2, THEN conjunct2, THEN conjunct1] by simp
  moreover have "computeStartingAddressForType ''row'' (Fin 101) (Fin 2) (Fin 7) = Fin 7"
    using w1 [THEN conjunct2, THEN conjunct2, THEN conjunct2, THEN conjunct2] by simp
  moreover have "computeStartingAddressForType ''row'' (Fin 99) (Fin 1) (Fin 7) = Fin 50183"
    using w2 [THEN conjunct2, THEN conjunct1] by simp
  ultimately show ?thesis by blast
qed

text \<open>
  C9 as stated fails: one more base register moves the start address by 1, not by 512.
\<close>

theorem base_register_step_counterexample:
  "computeStartingAddressForType ''row'' (Fin 1) (Fin 1) (Fin 0) = Fin 0
   \<and> computeStartingAddressForType ''row'' (Fin 1) (Fin 1) (Fin (0 + 1)) = Fin 1
   \<and> jsSub (computeStartingAddressForType ''row'' (Fin 1) (Fin 1) (Fin (0 + 1)))
        (computeStartingAddressForType ''row'' (Fin 1) (Fin 1) (Fin 0)) \<noteq> Fin 512"
  by code_simp

section \<open>Properties of the codecs\<close>

lemma hexDigit_not_whitespace: "isHexDigit c \<Longrightarrow> \<not> isWhitespace c"
  by (auto simp: isHexDigit_def hexDigit_def isWhitespace_def Let_def split: if_splits)

lemma trimEnd_hex: "list_all isHexDigit s \<Longrightarrow> trimEnd s = s"
proof -
  assume h: "list_all isHexDigit s"
  have "dropWhile isWhitespace (rev s) = rev s"
  proof (cases "rev s")
    case Nil
    then show ?thesis by simp
  next
    case (Cons c cs)
    then have "c \<in> set s"
      by (metis list.set_intros(1) set_rev)
    then have "\<not> isWhitespace c"
      using h hexDigit_not_whitespace by (auto simp: list_all_iff)
    then show ?thesis using Cons by simp
  qed
  then show ?thesis by (simp add: trimEnd_def)
qed

lemma bigIntOfHex_hex:
  "list_all isHexDigit s \<Longrightarrow> s \<noteq> [] \<Longrightarrow> bigIntOfHex s = Inr (hexValue s)"
  by (simp add: bigIntOfHex_def trimEnd_hex)

lemma decodeValue_raises_iff:
  "(\<exists>e. decodeValue hex codec = Inl e) \<longleftrightarrow>
     codec = ''uint64'' \<and> 8 \<le> length (bufferFromHex hex) \<and>
     \<not> (trimEnd hex \<noteq> [] \<and> list_all isHexDigit (trimEnd hex))"
  by (auto simp: decodeValue_def bigIntOfHex_def Let_def split: sum.splits)

text \<open>
  C8. For every input hex string, decoding with the \<open>int64\<close> codec yields the diagnostic
  \<open>Int64 decoding not implemented\<close>, never a number, whatever the input's length or
  content.
\<close>

theorem int64_not_implemented:
  "decodeValue hex ''int64'' = Inr (JStr ''Int64 decoding not implemented'')"
  by (simp add: decodeValue_def)

text \<open>
  C10, as amended. \<open>decodeValue\<close> is a function of its two inputs alone. For every
  string of hexadecimal digits (odd-length and empty ones included) and every codec name
  it returns a value or a diagnostic string. On arbitrary strings it raises in one case
  only: the codec is \<open>uint64\<close>, the string decodes to at least 8 bytes, and the whole
  string is not hexadecimal digits followed by optional white space (the
  \<open>BigInt("0x" + hex)\<close> conversion throws a SyntaxError).
\<close>

theorem decodeValue_total_on_hex_digits:
  "(list_all isHexDigit hex \<longrightarrow> (\<exists>v. decodeValue hex codec = Inr v))
   \<and> ((\<exists>e. decodeValue hex codec = Inl e) \<longleftrightarrow>
        codec = ''uint64'' \<and> 8 \<le> length (bufferFromHex hex) \<and>
        \<not> (trimEnd hex \<noteq> [] \<and> list_all isHexDigit (trimEnd hex)))"
proof (intro conjI impI)
  assume h: "list_all isHexDigit hex"
  have "\<not> (\<exists>e. decodeValue hex codec = Inl e)"
  proof
    assume "\<exists>e. decodeValue hex codec = Inl e"
    then have b: "8 \<le> length (bufferFromHex hex)"
      and n: "\<not> (trimEnd hex \<noteq> [] \<and> list_all isHexDigit (trimEnd hex))"
      using decodeValue_raises_iff [of hex codec] by simp_all
    from b have "hex \<noteq> []" by auto
    with n h show False by (simp add: trimEnd_hex)
  qed
  then show "\<exists>v. decodeValue hex codec = Inr v"
    by (cases "decodeValue hex codec") auto
next
  show "(\<exists>e. decodeValue hex codec = Inl e) \<longleftrightarrow>
        codec = ''uint64'' \<and> 8 \<le> length (bufferFromHex hex) \<and>
        \<not> (trimEnd hex \<noteq> [] \<and> list_all isHexDigit (trimEnd hex))"
    by (rule decodeValue_raises_iff)
qed

theorem decodeValue_total_on_hex_digits_witness:
  "(\<exists>v. decodeValue ''00ff1'' ''uint64'' = Inr v)
   \<and> (\<exists>v. decodeValue ''0000000000000000zz'' ''ascii'' = Inr v)"
proof -
  have "list_all isHexDigit ''00ff1''"
    by code_simp
  moreover have "''ascii'' \<noteq> ''uint64''"
    by simp
  ultimately show ?thesis
    using decodeValue_total_on_hex_digits [of "''00ff1''" "''uint64''"]
      decodeValue_total_on_hex_digits [of "''0000000000000000zz''" "''ascii''"]
    by (cases "decodeValue ''0000000000000000zz'' ''ascii''") auto
qed

text \<open>
  C10 as stated fails: with the \<open>uint64\<close> codec, sixteen hexadecimal digits followed by
  characters that are not hexadecimal digits make \<open>decodeValue\<close> raise.
\<close>

theorem decodeValue_raises_counterexample:
  "decodeValue ''0000000000000000zz'' ''uint64''
     = Inl (BigIntSyntaxError ''0x0000000000000000zz'')"
  by code_simp

text \<open>
  The padding statements on their own: for a codec that requires \<open>N\<close> hexadecimal
  characters, a string shorter than \<open>N\<close> is left-padded with zeros to exactly
  \<open>N\<close> characters and one of length \<open>N\<close> or more is returned unchanged.
\<close>

lemma padForCodec_law:
  assumes "spec_requiredWidth codec = Some N"
  shows "(length h < N \<longrightarrow>
            padForCodec codec h = replicate (N - length h) (CHR ''0'') @ h
            \<and> length (padForCodec codec h) = N)
         \<and> (N \<le> length h \<longrightarrow> padForCodec codec h = h)"
  using assms
  by (auto simp: spec_requiredWidth_def padForCodec_def padStart_def Let_def split: if_splits)

section \<open>Properties of readModbusBatch\<close>








section \<open>Properties of the hex assembly\<close>

declare hexInt.simps [simp del]
declare decimalInt.simps [simp del]

lemma hexDigit_digitChar: "d < 16 \<Longrightarrow> hexDigit (digitChar d) = Some d"
  by (auto simp: hexDigit_def digitChar_def Let_def)

lemma hexValue_snoc:
  "hexValue (s @ [c]) = 16 * hexValue s + (case hexDigit c of Some d \<Rightarrow> int d | None \<Rightarrow> 0)"
  by (simp add: hexValue_def)

lemma hexInt_small: "n < 16 \<Longrightarrow> hexInt n = [digitChar (nat n)]"
  by (subst hexInt.simps) simp

lemma hexInt_large:
  "\<not> n < 16 \<Longrightarrow> hexInt n = hexInt (n div 16) @ [digitChar (nat (n mod 16))]"
  by (subst hexInt.simps) simp

lemma hexInt_correct:
  "0 \<le> n \<Longrightarrow> list_all isHexDigit (hexInt n) \<and> hexValue (hexInt n) = n"
proof (induction n rule: hexInt.induct)
  case (1 n)
  show ?case
  proof (cases "n < 16")
    case True
    have "nat n < 16" using True by simp
    then have d: "hexDigit (digitChar (nat n)) = Some (nat n)"
      by (rule hexDigit_digitChar)
    show ?thesis
      using "1.prems" d by (simp add: hexInt_small [OF True] isHexDigit_def hexValue_def)
  next
    case False
    have nn: "0 \<le> n div 16" using "1.prems" by simp
    have ih: "list_all isHexDigit (hexInt (n div 16))" "hexValue (hexInt (n div 16)) = n div 16"
      using "1.IH" [OF False nn] by simp_all
    have "nat (n mod 16) < 16" by simp
    then have d: "hexDigit (digitChar (nat (n mod 16))) = Some (nat (n mod 16))"
      by (rule hexDigit_digitChar)
    then have h: "isHexDigit (digitChar (nat (n mod 16)))"
      by (simp add: isHexDigit_def)
    show ?thesis
      using ih d h by (simp add: hexInt_large [OF False] hexValue_snoc)
  qed
qed

lemma hexInt_length: "0 \<le> n \<Longrightarrow> n < 16 ^ k \<Longrightarrow> 0 < k \<Longrightarrow> length (hexInt n) \<le> k"
proof (induction n arbitrary: k rule: hexInt.induct)
  case (1 n)
  show ?case
  proof (cases "n < 16")
    case True
    then show ?thesis using "1.prems" by (simp add: hexInt_small)
  next
    case False
    obtain j where k: "k = Suc j" using "1.prems"(3) by (cases k) auto
    have j: "0 < j"
    proof (rule ccontr)
      assume "\<not> 0 < j"
      then have "k = 1" using k by simp
      then show False using "1.prems"(2) False by simp
    qed
    have "n < 16 * 16 ^ j" using "1.prems"(2) k by simp
    then have "n div 16 < 16 ^ j" by simp
    moreover have "0 \<le> n div 16" using "1.prems"(1) by simp
    ultimately have "length (hexInt (n div 16)) \<le> j"
      using "1.IH" [OF False] j by simp
    then show ?thesis using k by (simp add: hexInt_large [OF False])
  qed
qed

lemma hexValue_zeros: "hexValue (replicate k (CHR ''0'') @ s) = hexValue s"
proof -
  have z: "hexDigit (CHR ''0'') = Some 0" by (simp add: hexDigit_def)
  have "foldl (\<lambda>acc c. 16 * acc + (case hexDigit c of Some d \<Rightarrow> int d | None \<Rightarrow> 0)) 0
          (replicate k (CHR ''0'')) = 0"
    by (induction k) (simp_all add: z)
  then show ?thesis by (simp add: hexValue_def)
qed

lemma registerHex_word:
  assumes "- 32768 \<le> v" and "v \<le> 65535"
  shows "length (registerHex v) = 4"
    and "list_all isHexDigit (registerHex v)"
    and "hexValue (registerHex v) = (if v < 0 then 65536 + v else v)"
proof -
  define m where "m = (if v < 0 then 65536 + v else v)"
  have m: "0 \<le> m" "m < 16 ^ 4" using assms by (auto simp: m_def)
  have r: "registerHex v = padStart 4 (hexInt m)"
    using m(1) by (simp add: registerHex_def toString16_def m_def)
  have len: "length (hexInt m) \<le> 4"
    using m by (intro hexInt_length) simp_all
  have z: "isHexDigit (CHR ''0'')" by (simp add: isHexDigit_def hexDigit_def)
  show "length (registerHex v) = 4"
    using len by (simp add: r padStart_def)
  show "list_all isHexDigit (registerHex v)"
    using hexInt_correct [OF m(1)] z by (auto simp: r padStart_def list_all_iff)
  show "hexValue (registerHex v) = (if v < 0 then 65536 + v else v)"
    using hexInt_correct [OF m(1)] by (simp add: r padStart_def hexValue_zeros m_def)
qed

lemma concat_registerHex_length:
  "\<forall>v\<in>set data. - 32768 \<le> v \<and> v \<le> 65535
     \<Longrightarrow> length (concat (map registerHex data)) = 4 * length data"
  by (induction data) (simp_all add: registerHex_word(1))

lemma strip_zeros_restore:
  "replicate (length s - length (dropWhile (\<lambda>c. c = CHR ''0'') s)) (CHR ''0'')
     @ dropWhile (\<lambda>c. c = CHR ''0'') s = s"
proof -
  let ?P = "\<lambda>c. c = CHR ''0''"
  have s: "takeWhile ?P s @ dropWhile ?P s = s" by simp
  have "length s = length (takeWhile ?P s) + length (dropWhile ?P s)"
    by (metis length_append s)
  then have l: "length s - length (dropWhile ?P s) = length (takeWhile ?P s)" by simp
  have "\<forall>y\<in>set (takeWhile ?P s). y = CHR ''0''"
    by (auto dest: set_takeWhileD)
  then have "replicate (length (takeWhile ?P s)) (CHR ''0'') = takeWhile ?P s"
    by (rule replicate_length_same)
  then show ?thesis using l s by simp
qed

lemma combinedHexTTID_restore:
  assumes "\<forall>v\<in>set data. - 32768 \<le> v \<and> v \<le> 65535" and "data \<noteq> []"
  shows "padStart (4 * length data) (combinedHexTTID data) = concat (map registerHex data)"
proof -
  let ?P = "\<lambda>c. c = CHR ''0''"
  let ?cat = "concat (map registerHex data)"
  have len: "length ?cat = 4 * length data"
    using assms(1) by (rule concat_registerHex_length)
  have n: "2 \<le> 4 * length data" using assms(2) by (cases data) auto
  show ?thesis
  proof (cases "dropWhile ?P ?cat = []")
    case True
    have all0: "replicate (length ?cat) (CHR ''0'') = ?cat"
      using strip_zeros_restore [of ?cat] True by simp
    obtain j where j: "4 * length data = j + 2"
      using n by (metis add.commute le_Suc_ex)
    have "replicate (j + 2) (CHR ''0'') = replicate j (CHR ''0'') @ replicate 2 (CHR ''0'')"
      by (rule replicate_add)
    moreover have "replicate 2 (CHR ''0'') = ''00''"
      by (simp add: numeral_2_eq_2)
    ultimately have "replicate j (CHR ''0'') @ ''00'' = replicate (j + 2) (CHR ''0'')"
      by simp
    moreover have "length ''00'' = 2"
      by simp
    ultimately have "padStart (j + 2) ''00'' = replicate (j + 2) (CHR ''0'')"
      unfolding padStart_def by simp
    then have "padStart (4 * length data) ''00'' = ?cat"
      using all0 len j by simp
    moreover have "combinedHexTTID data = ''00''"
      using True by (simp add: combinedHexTTID_def)
    ultimately show ?thesis by simp
  next
    case False
    then have "combinedHexTTID data = dropWhile ?P ?cat"
      unfolding combinedHexTTID_def Let_def by (rule if_not_P)
    moreover have "padStart (4 * length data) (dropWhile ?P ?cat) = ?cat"
      unfolding padStart_def len [symmetric] by (rule strip_zeros_restore)
    ultimately show ?thesis by simp
  qed
qed

text \<open>
  The rendering of one register word, for every sequence of 16-bit words in signed or
  unsigned representation: exactly 4 hexadecimal digits whose value is the word, or
  \<open>0x10000 + v\<close> for a negative \<open>v\<close>.
\<close>

lemma registerHex_rendering:
  assumes "\<forall>v\<in>set data. - 32768 \<le> v \<and> v \<le> 65535"
  shows "\<forall>v\<in>set data. length (registerHex v) = 4 \<and> list_all isHexDigit (registerHex v)
            \<and> hexValue (registerHex v) = (if v < 0 then 65536 + v else v)"
  using assms registerHex_word by blast

lemma registerHex_examples: "registerHex (- 1) = ''ffff'' \<and> registerHex 0 = ''0000''"
  by code_simp

section \<open>The hex string and the decoded value of a row\<close>

text \<open>
  A successful read in readModbusBatch: the row's hex cell is the combined hex string
  without its leading zeros, padded for the codec, in upper case behind a quote; the
  decoder gets that same padded string.
\<close>

lemma fieldStep_success_row:
  assumes "isFinite (fBaseReg fld)" and "isFinite (fSize fld)" and "\<not> jsLessEq (fSize fld) 0"
    and "client c unitId
           (computeStartingAddressForType deviceType ttidNum unitId (fBaseReg fld))
           (fSize fld) = (Inr data, c')"
  shows "map (\<lambda>r. (CombinedHex r, DecodedValue r))
           (fst (fieldStep client site deviceType ttidNum unitId fld ([], c)))
         = [(JStr (CHR 0x27 # toUpperCase
                     (padForCodec (normalizeCodec (fCodec fld)) (combinedHexTTID data))),
             (case decodeValue
                     (padForCodec (normalizeCodec (fCodec fld)) (combinedHexTTID data))
                     (normalizeCodec (fCodec fld)) of
                Inr v \<Rightarrow>
                  if v = JNull \<and> fCodec fld \<noteq> []
                  then JStr (''Unknown codec '' @ [CHR 0x22] @ fCodec fld @ [CHR 0x22])
                  else v
              | Inl err \<Rightarrow> JTemplate ''Decode error: '' err))]"
  using assms by (simp add: fieldStep_def Let_def)

text \<open>
  A successful read and decode in the position-mode generators: the row's hex cell is the
  concatenation of the 4-digit groups in register order, padded for the codec; the
  decoder gets that same padded string.
\<close>

lemma entryStep_success_row:
  assumes "client c (Fin (of_int unitId)) (jsAdd (jsMul posBase (Fin 512)) (fBaseReg entry))
             (fSize entry) = (Inr data, c')"
    and "decode (padForCodec (normalizeCodec (fCodec entry)) (concat (map registerHex data)))
           (normalizeCodec (fCodec entry)) = Inr v"
  shows "map (\<lambda>r. (CombinedHex r, DecodedValue r))
           (fst (entryStep decode client site unitId posBase entry ([], c)))
         = [(JStr (CHR 0x27 # toUpperCase
                     (padForCodec (normalizeCodec (fCodec entry))
                        (concat (map registerHex data)))), v)]"
  using assms
  by (simp add: entryStep_def combinedHexPosition_def Let_def del: jsAdd.simps jsMul.simps)

text \<open>
  C3, at the failing input. readModbusBatch, run on a field of two registers with the
  codec \<open>uint16\<close> and a read that returns the words 1 and 65535: the combined hex
  string attached to the row is \<open>1FFFF\<close>, the concatenation \<open>0001ffff\<close> without its
  leading zeros, and the decoded value is 8191. readModbusPositions, run on the same
  entry and the same words, attaches the concatenation \<open>0001FFFF\<close> and decodes 1.
\<close>

theorem ttid_reader_strips_leading_zeros:
  "ttidLoop (\<lambda>c u a n. (Inr [1, 65535], c)) (\<lambda>s. if s = ''1'' then Fin 1 else NaN)
     ''site'' ''row''
     [\<lparr>fBaseReg = Fin 0, fSize = Fin 2, fID = ''Temp'', fCodec = ''uint16''\<rparr>]
     [''1''] ([], ())
   = ([\<lparr>Site = JStr ''site'', UnitID = JNum (Fin 1), ID = JStr ''Temp'',
         StartingAddress = JNum (Fin 0), Size = JNum (Fin 2),
         CombinedHex = JStr (CHR 0x27 # ''1FFFF''), DecodedValue = JNum (Fin 8191),
         TTID = JNum (Fin 1)\<rparr>], ())
   \<and> positionEntryLoop (\<lambda>c u a n. (Inr [1, 65535], c)) ''site'' 1 (Fin 0)
       [\<lparr>fBaseReg = Fin 0, fSize = Fin 2, fID = ''Temp'', fCodec = ''uint16''\<rparr>] ([], ())
   = ([\<lparr>Site = JStr ''site'', UnitID = JNum (Fin 1), ID = JStr ''Temp'',
         StartingAddress = JNum (Fin 0), Size = JNum (Fin 2),
         CombinedHex = JStr (CHR 0x27 # ''0001FFFF''), DecodedValue = JNum (Fin 1)\<rparr>], ())"
  by code_simp

text \<open>
  C4, at the failing input. readModbusBatch, run on a field of two registers with the
  codec \<open>uint16\<close> (required width 4) and a read that returns the words 0 and 5: the
  response is 8 hexadecimal characters wide, but the string that reaches the decoder is
  the 4 characters \<open>0005\<close> (the leading zeros are stripped before the padding
  statements, which then pad \<open>5\<close> to the codec's width), and the decoded value is 5.
  readModbusPositions, run on the same entry and the same words, passes the full width
  \<open>00000005\<close> to the decoder, which decodes 0.
\<close>

theorem ttid_reader_truncates_wide_response:
  "ttidLoop (\<lambda>c u a n. (Inr [0, 5], c)) (\<lambda>s. if s = ''1'' then Fin 1 else NaN)
     ''site'' ''row''
     [\<lparr>fBaseReg = Fin 0, fSize = Fin 2, fID = ''Temp'', fCodec = ''uint16''\<rparr>]
     [''1''] ([], ())
   = ([\<lparr>Site = JStr ''site'', UnitID = JNum (Fin 1), ID = JStr ''Temp'',
         StartingAddress = JNum (Fin 0), Size = JNum (Fin 2),
         CombinedHex = JStr (CHR 0x27 # ''0005''), DecodedValue = JNum (Fin 5),
         TTID = JNum (Fin 1)\<rparr>], ())
   \<and> positionEntryLoop (\<lambda>c u a n. (Inr [0, 5], c)) ''site'' 1 (Fin 0)
       [\<lparr>fBaseReg = Fin 0, fSize = Fin 2, fID = ''Temp'', fCodec = ''uint16''\<rparr>] ([], ())
   = ([\<lparr>Site = JStr ''site'', UnitID = JNum (Fin 1), ID = JStr ''Temp'',
         StartingAddress = JNum (Fin 0), Size = JNum (Fin 2),
         CombinedHex = JStr (CHR 0x27 # ''00000005''), DecodedValue = JNum (Fin 0)\<rparr>], ())"
  by code_simp

section \<open>Invalid field specs and unknown codecs\<close>

text \<open>
  In readModbusBatch a field spec with a non-finite base register or size, or a size
  \<open>\<le> 0\<close>, gets an \<open>Invalid field spec\<close> row; the transport is not called (the result
  does not depend on it and the connection state is unchanged), and the loop goes on with
  the next field.
\<close>

lemma ttid_invalid_field_spec:
  assumes "\<not> isFinite (fBaseReg fld) \<or> \<not> isFinite (fSize fld) \<or> jsLessEq (fSize fld) 0"
  shows "fieldLoop client site deviceType ttidNum unitId (fld # rest) (acc, c)
     = fieldLoop client site deviceType ttidNum unitId rest
         (acc @ [\<lparr>Site = JStr site, UnitID = JNum unitId, ID = JStr (fID fld),
                   StartingAddress = JNum (fBaseReg fld), Size = JNum (fSize fld),
                   CombinedHex = JStr ''Invalid field spec'', DecodedValue = JStr '''',
                   TTID = JNum ttidNum\<rparr>], c)"
  using assms by (simp add: fieldStep_def Let_def)

lemma decodeValue_unknown:
  "codec \<notin> set canonicalCodecs \<Longrightarrow> decodeValue hex codec = Inr JNull"
  by (simp add: canonicalCodecs_def decodeValue_def)

text \<open>
  In readModbusBatch a successful read of a field whose codec string is non-empty and
  does not normalize to a canonical codec gives the decoded value
  \<open>Unknown codec "<the codec string>"\<close>.
\<close>

lemma ttid_unknown_codec:
  assumes "isFinite (fBaseReg fld)" and "isFinite (fSize fld)" and "\<not> jsLessEq (fSize fld) 0"
    and "client c unitId
           (computeStartingAddressForType deviceType ttidNum unitId (fBaseReg fld))
           (fSize fld) = (Inr data, c')"
    and "fCodec fld \<noteq> []" and "normalizeCodec (fCodec fld) \<notin> set canonicalCodecs"
  shows "map DecodedValue
           (fst (fieldStep client site deviceType ttidNum unitId fld ([], c)))
         = [JStr (''Unknown codec '' @ [CHR 0x22] @ fCodec fld @ [CHR 0x22])]"
  using assms by (simp add: fieldStep_def Let_def decodeValue_unknown)

text \<open>
  C6, at the failing input. The legacy-sorted generator readAllPositionsFromCsv, run on
  an entry without a numeric base register and on an entry of size 0 with a transport that
  records each call: the first entry is skipped without any row, and for the second the
  transport is called with count 0 and the only row is the read's error row. No
  \<open>Invalid field spec\<close> row is produced.
\<close>

theorem sorted_reader_fetches_invalid_spec:
  "sortedEntryLoop
     (\<lambda>c u a n. (Inl (TransportError ''Modbus exception 3: Illegal data value''), c @ [(u, a, n)]))
     ''site'' 1 (Fin 0)
     [\<lparr>fBaseReg = NaN, fSize = Fin 1, fID = ''Mode'', fCodec = ''uint16''\<rparr>,
      \<lparr>fBaseReg = Fin 8, fSize = Fin 0, fID = ''Temp'', fCodec = ''uint16''\<rparr>]
     ([], [])
   = ([\<lparr>Site = JStr ''site'', UnitID = JNum (Fin 1), ID = JStr ''Temp'',
         StartingAddress = JNum (Fin 8), Size = JNum (Fin 0),
         CombinedHex = JTemplate ''Error: ''
           (TransportError ''Modbus exception 3: Illegal data value''),
         DecodedValue = JStr ''''\<rparr>],
      [(Fin 1, Fin 8, Fin 0)])"
  by code_simp

text \<open>
  C7, at the failing input. The position generator readModbusPositions, run on an entry
  with the codec string \<open>widget\<close> and a read that returns one register: the row's
  decoded value is \<open>null\<close>, not a diagnostic naming the codec.
\<close>

theorem position_reader_unknown_codec_null:
  "positionEntryLoop (\<lambda>c u a n. (Inr [1], c)) ''site'' 1 (Fin 0)
     [\<lparr>fBaseReg = Fin 8, fSize = Fin 1, fID = ''Temp'', fCodec = ''widget''\<rparr>] ([], ())
   = ([\<lparr>Site = JStr ''site'', UnitID = JNum (Fin 1), ID = JStr ''Temp'',
         StartingAddress = JNum (Fin 8), Size = JNum (Fin 1),
         CombinedHex = JStr (CHR 0x27 # ''0001''), DecodedValue = JNull\<rparr>], ())"
  by code_simp

section \<open>Properties of the mode toggle\<close>

lemma postUpdate_resolves:
  assumes "neverThrows fetchImpl"
  shows "\<exists>r s'. postUpdate fetchImpl vars sel s = (Inr r, s')"
proof -
  obtain fr s' where f: "fetchImpl s sel vars = (fr, s')"
    by (cases "fetchImpl s sel vars") auto
  have n: "case fr of Rejects m \<Rightarrow> False | Resolves res \<Rightarrow> \<not> (parsed res = JsonNull \<and> resOk res)"
    using assms f unfolding neverThrows_def by (metis fst_conv)
  show ?thesis
  proof (cases fr)
    case (Rejects m)
    with n show ?thesis by simp
  next
    case (Resolves res)
    with n f show ?thesis
      by (cases "parsed res") (auto simp: postUpdate_def split: option.splits)
  qed
qed

lemma selectionLoop_resolves:
  assumes "neverThrows fetchImpl"
  shows "\<exists>out flags' s'. selectionLoop fetchImpl sels flgs s = (Inr (out, flags'), s')
           \<and> (case out of Some v \<Rightarrow> structuredOutcome v | None \<Rightarrow> True)"
proof (induction sels arbitrary: flgs s)
  case Nil
  then show ?case by simp
next
  case (Cons sel rest)
  obtain r s1 where p: "postUpdate fetchImpl flgs sel s = (Inr r, s1)"
    using postUpdate_resolves [OF assms] by blast
  show ?case
  proof (cases "prOk r")
    case True
    with p show ?thesis by (simp add: structuredOutcome_def)
  next
    case False
    define msg where "msg = (case prError r of Some m \<Rightarrow> m | None \<Rightarrow> [])"
    obtain f2 removed where sc: "scrubUnsupportedFlagsFromError flgs msg = (f2, removed)"
      by (cases "scrubUnsupportedFlagsFromError flgs msg") auto
    show ?thesis
      using p False sc Cons.IH [of flgs s1] Cons.IH [of f2 s1]
      by (auto simp: Let_def msg_def)
  qed
qed

lemma attemptLoop_resolves:
  assumes "neverThrows fetchImpl"
  shows "\<exists>out s'. attemptLoop fetchImpl n flgs s = (Inr out, s') \<and> structuredOutcome out"
proof (induction n arbitrary: flgs s)
  case 0
  then show ?case by (simp add: structuredOutcome_def)
next
  case (Suc n)
  obtain out f2 s1 where l:
    "selectionLoop fetchImpl SELECTIONS flgs s = (Inr (out, f2), s1)"
    "case out of Some v \<Rightarrow> structuredOutcome v | None \<Rightarrow> True"
    using selectionLoop_resolves [OF assms] by blast
  show ?case
  proof (cases out)
    case (Some v)
    with l show ?thesis by simp
  next
    case None
    with l Suc.IH [of f2 s1] show ?thesis
      by (auto simp: structuredOutcome_def)
  qed
qed

text \<open>
  Whenever the transport never makes the module throw, setModbusMode resolves to an
  outcome object, for every mode string: \<open>ok\<close>, or \<open>skipped\<close> with a reason. This
  covers non-JSON responses, HTTP errors, GraphQL errors and the exhausted retry budget.
\<close>

lemma setModbusMode_resolves:
  assumes "neverThrows fetchImpl"
  shows "\<exists>out s'. setModbusMode fetchImpl mode s = (Inr out, s') \<and> structuredOutcome out"
proof (cases "MODE_MAP (toLowerCase mode)")
  case None
  then show ?thesis by (simp add: setModbusMode_def structuredOutcome_def)
next
  case (Some flgs)
  then show ?thesis
    using attemptLoop_resolves [OF assms, of 6 flgs s]
    by (simp add: setModbusMode_def setFlags_def)
qed

text \<open>
  C5, at the failing input. When the transport fails (or the timeout aborts the request)
  \<open>fetch\<close> rejects, and setModbusMode raises that rejection to its caller instead of
  resolving to an outcome object; a 200 response whose body is the JSON value \<open>null\<close>
  raises a TypeError in the same way.
\<close>

theorem setModbusMode_raises:
  "setModbusMode (\<lambda>s sel vars. (Rejects ''fetch failed'', s)) ''ttid'' ()
     = (Inl (FetchError ''fetch failed''), ())
   \<and> setModbusMode
       (\<lambda>s sel vars. (Resolves \<lparr>status = 200, bodyText = ''null'', parsed = JsonNull\<rparr>, s))
       ''legacy-sorted'' ()
     = (Inl (TypeError ''Cannot read properties of null (reading errors)''), ())"
  by code_simp

end
